theory Spec2Isabelle
  imports Main "HOL-Library.Word" "HOL-Library.List_Lexorder" "HOL-Library.Product_Lexorder"
    "HOL-Library.AList" "HOL-Library.Multiset"
begin

unbundle bit_operations_syntax

section \<open>Strings, bytes and the file system\<close>

text \<open>
  A Python \<open>str\<close> is a sequence of Unicode code points, a \<open>bytes\<close> object a sequence of
  octets.  Strings are compared and sorted by code point, which is the lexicographic
  order on lists of naturals.
\<close>

type_synonym byte = "8 word"
type_synonym pystr = "nat list"

definition ustr :: "string \<Rightarrow> pystr" where
  "ustr cs = map of_char cs"

definition startswith :: "pystr \<Rightarrow> pystr \<Rightarrow> bool" where
  "startswith s p = (take (length p) s = p)"

definition endswith :: "pystr \<Rightarrow> pystr \<Rightarrow> bool" where
  "endswith s p = (length p \<le> length s \<and> drop (length s - length p) s = p)"

text \<open>\<open>s.rstrip("\n")\<close>: every trailing line feed is removed.\<close>

definition rstrip_nl :: "pystr \<Rightarrow> pystr" where
  "rstrip_nl s = rev (dropWhile (\<lambda>c. c = 10) (rev s))"

text \<open>\<open>'{}'.format(n)\<close> for a non-negative integer: its decimal digits.\<close>

function str_nat :: "nat \<Rightarrow> pystr" where
  "str_nat n = (if n < 10 then [48 + n] else str_nat (n div 10) @ [48 + n mod 10])"
  by pat_completeness auto
termination
  by (relation "measure id") auto

declare str_nat.simps [simp del]

text \<open>
  The part of the file system the comparison looks at: the regular files, by path.  A
  regular file can be opened and read, or it exists and opening it raises \<open>OSError\<close>
  (permissions, an I/O fault).  A path that is no regular file is absent from the map.
  One call of \<open>compare_file\<close> sees one snapshot of it.
\<close>

datatype file_entry = Readable "byte list" | Unreadable

type_synonym filesystem = "pystr \<rightharpoonup> file_entry"

text \<open>What a function did to the file system: existence tests and attempts to open.\<close>

datatype io_event = IsFile pystr | OpenFile pystr

datatype py_error = OSError | UnicodeDecodeError

definition isfile :: "filesystem \<Rightarrow> pystr \<Rightarrow> bool \<times> io_event list" where
  "isfile fs path = (fs path \<noteq> None, [IsFile path])"

definition open_rb :: "filesystem \<Rightarrow> pystr \<Rightarrow> py_error + byte list" where
  "open_rb fs path = (case fs path of Some (Readable bs) \<Rightarrow> Inr bs | _ \<Rightarrow> Inl OSError)"

section \<open>The digest: \<open>hashlib.md5\<close>\<close>

type_synonym u32 = "32 word"
type_synonym md5_state = "u32 \<times> u32 \<times> u32 \<times> u32"

definition md5_s :: "nat list" where
  "md5_s = [7,12,17,22, 7,12,17,22, 7,12,17,22, 7,12,17,22,
            5,9,14,20, 5,9,14,20, 5,9,14,20, 5,9,14,20,
            4,11,16,23, 4,11,16,23, 4,11,16,23, 4,11,16,23,
            6,10,15,21, 6,10,15,21, 6,10,15,21, 6,10,15,21]"

definition md5_K :: "u32 list" where
  "md5_K = [0xd76aa478, 0xe8c7b756, 0x242070db, 0xc1bdceee, 0xf57c0faf, 0x4787c62a,
            0xa8304613, 0xfd469501, 0x698098d8, 0x8b44f7af, 0xffff5bb1, 0x895cd7be,
            0x6b901122, 0xfd987193, 0xa679438e, 0x49b40821, 0xf61e2562, 0xc040b340,
            0x265e5a51, 0xe9b6c7aa, 0xd62f105d, 0x02441453, 0xd8a1e681, 0xe7d3fbc8,
            0x21e1cde6, 0xc33707d6, 0xf4d50d87, 0x455a14ed, 0xa9e3e905, 0xfcefa3f8,
            0x676f02d9, 0x8d2a4c8a, 0xfffa3942, 0x8771f681, 0x6d9d6122, 0xfde5380c,
            0xa4beea44, 0x4bdecfa9, 0xf6bb4b60, 0xbebfbc70, 0x289b7ec6, 0xeaa127fa,
            0xd4ef3085, 0x04881d05, 0xd9d4d039, 0xe6db99e5, 0x1fa27cf8, 0xc4ac5665,
            0xf4292244, 0x432aff97, 0xab9423a7, 0xfc93a039, 0x655b59c3, 0x8f0ccc92,
            0xffeff47d, 0x85845dd1, 0x6fa87e4f, 0xfe2ce6e0, 0xa3014314, 0x4e0811a1,
            0xf7537e82, 0xbd3af235, 0x2ad7d2bb, 0xeb86d391]"

definition rotl :: "u32 \<Rightarrow> nat \<Rightarrow> u32" where
  "rotl x c = (push_bit c x) OR (drop_bit (32 - c) x)"

definition le_bytes :: "nat \<Rightarrow> nat \<Rightarrow> byte list" where
  "le_bytes k v = map (\<lambda>i. of_nat (v div 2 ^ (8 * i))) [0..<k]"

definition md5_pad :: "byte list \<Rightarrow> byte list" where
  "md5_pad bs = bs @ [0x80] @ replicate ((119 - length bs mod 64) mod 64) 0
                   @ le_bytes 8 (8 * length bs)"

definition word_le :: "byte list \<Rightarrow> u32" where
  "word_le bs = foldr (\<lambda>b w. ucast b OR push_bit 8 w) bs 0"

fun words_le :: "nat \<Rightarrow> byte list \<Rightarrow> u32 list" where
  "words_le 0 bs = []"
| "words_le (Suc n) bs = word_le (take 4 bs) # words_le n (drop 4 bs)"

definition md5_step :: "u32 list \<Rightarrow> md5_state \<Rightarrow> nat \<Rightarrow> md5_state" where
  "md5_step M st i = (case st of (A, B, C, D) \<Rightarrow>
     let (F, g) =
       (if i < 16 then ((B AND C) OR (NOT B AND D), i)
        else if i < 32 then ((D AND B) OR (NOT D AND C), (5 * i + 1) mod 16)
        else if i < 48 then (B XOR C XOR D, (3 * i + 5) mod 16)
        else (C XOR (B OR NOT D), (7 * i) mod 16));
       F' = F + A + md5_K ! i + M ! g
     in (D, B + rotl F' (md5_s ! i), B, C))"

definition md5_block :: "md5_state \<Rightarrow> byte list \<Rightarrow> md5_state" where
  "md5_block h blk = (case h of (a0, b0, c0, d0) \<Rightarrow>
     case foldl (md5_step (words_le 16 blk)) h [0..<64] of (A, B, C, D) \<Rightarrow>
       (a0 + A, b0 + B, c0 + C, d0 + D))"

fun md5_blocks :: "nat \<Rightarrow> md5_state \<Rightarrow> byte list \<Rightarrow> md5_state" where
  "md5_blocks 0 h bs = h"
| "md5_blocks (Suc n) h bs = md5_blocks n (md5_block h (take 64 bs)) (drop 64 bs)"

definition md5_digest :: "byte list \<Rightarrow> byte list" where
  "md5_digest bs = (let p = md5_pad bs in
     case md5_blocks (length p div 64) (0x67452301, 0xefcdab89, 0x98badcfe, 0x10325476) p of
       (a, b, c, d) \<Rightarrow> concat (map (\<lambda>w. le_bytes 4 (unat w)) [a, b, c, d]))"

definition hexchar :: "nat \<Rightarrow> nat" where
  "hexchar d = (if d < 10 then 48 + d else 87 + d)"

text \<open>\<open>h.hexdigest()\<close>: two lower-case hexadecimal digits for each of the 16 digest bytes.\<close>

definition hexdigest :: "byte list \<Rightarrow> pystr" where
  "hexdigest bs =
     concat (map (\<lambda>b. [hexchar (unat b div 16), hexchar (unat b mod 16)]) (md5_digest bs))"

text \<open>
  \<open>iter(lambda: f.read(1 << 16), b"")\<close>: the content in chunks of at most \<open>n\<close> bytes, up
  to the first empty read.
\<close>

function read_chunks :: "nat \<Rightarrow> byte list \<Rightarrow> byte list list" where
  "read_chunks n bs = (if n = 0 \<or> bs = [] then [] else take n bs # read_chunks n (drop n bs))"
  by pat_completeness auto
termination
  by (relation "measure (\<lambda>(n, bs). length bs)") auto

declare read_chunks.simps [simp del]

text \<open>
  \<open>fast_hash\<close>: the MD5 object is fed chunk by chunk, so it digests the concatenation of
  the chunks; an \<open>OSError\<close> gives the empty string.
\<close>

definition fast_hash :: "filesystem \<Rightarrow> pystr \<Rightarrow> pystr \<times> io_event list" where
  "fast_hash fs filepath =
     (case open_rb fs filepath of
        Inl e \<Rightarrow> ([], [OpenFile filepath])
      | Inr bs \<Rightarrow> (hexdigest (foldl (@) [] (read_chunks (2 ^ 16) bs)), [OpenFile filepath]))"

section \<open>Decoding and reading lines\<close>

datatype encoding = UTF8 | UTF8_SIG | LATIN1

datatype errors_mode = Strict | Replace

definition is_cont :: "nat \<Rightarrow> bool" where
  "is_cont c = (128 \<le> c \<and> c < 192)"

text \<open>
  The UTF-8 decoder: the code points of the well-formed sequences (no overlong forms, no
  surrogates, nothing above U+10FFFF), and \<open>None\<close> for each maximal ill-formed
  subsequence, which is where \<open>errors="strict"\<close> raises and \<open>errors="replace"\<close> puts
  U+FFFD.
\<close>

fun utf8_scan :: "nat list \<Rightarrow> nat option list" where
  "utf8_scan [] = []"
| "utf8_scan [c] = (if c < 128 then [Some c] else [None])"
| "utf8_scan [c, c2] =
     (if c < 128 then Some c # utf8_scan [c2]
      else if c < 194 then None # utf8_scan [c2]
      else if c < 224 then
        (if is_cont c2 then [Some ((c - 192) * 64 + (c2 - 128))] else None # utf8_scan [c2])
      else if c < 240 then
        (if \<not> is_cont c2 \<or> (c = 224 \<and> c2 < 160) \<or> (c = 237 \<and> 160 \<le> c2)
         then None # utf8_scan [c2] else [None])
      else if c < 245 then
        (if \<not> is_cont c2 \<or> (c = 240 \<and> c2 < 144) \<or> (c = 244 \<and> 144 \<le> c2)
         then None # utf8_scan [c2] else [None])
      else None # utf8_scan [c2])"
| "utf8_scan [c, c2, c3] =
     (if c < 128 then Some c # utf8_scan [c2, c3]
      else if c < 194 then None # utf8_scan [c2, c3]
      else if c < 224 then
        (if is_cont c2 then Some ((c - 192) * 64 + (c2 - 128)) # utf8_scan [c3]
         else None # utf8_scan [c2, c3])
      else if c < 240 then
        (if \<not> is_cont c2 \<or> (c = 224 \<and> c2 < 160) \<or> (c = 237 \<and> 160 \<le> c2)
         then None # utf8_scan [c2, c3]
         else if is_cont c3
         then [Some ((c - 224) * 4096 + (c2 - 128) * 64 + (c3 - 128))]
         else None # utf8_scan [c3])
      else if c < 245 then
        (if \<not> is_cont c2 \<or> (c = 240 \<and> c2 < 144) \<or> (c = 244 \<and> 144 \<le> c2)
         then None # utf8_scan [c2, c3]
         else if is_cont c3 then [None] else None # utf8_scan [c3])
      else None # utf8_scan [c2, c3])"
| "utf8_scan (c # c2 # c3 # c4 # r) =
     (if c < 128 then Some c # utf8_scan (c2 # c3 # c4 # r)
      else if c < 194 then None # utf8_scan (c2 # c3 # c4 # r)
      else if c < 224 then
        (if is_cont c2 then Some ((c - 192) * 64 + (c2 - 128)) # utf8_scan (c3 # c4 # r)
         else None # utf8_scan (c2 # c3 # c4 # r))
      else if c < 240 then
        (if \<not> is_cont c2 \<or> (c = 224 \<and> c2 < 160) \<or> (c = 237 \<and> 160 \<le> c2)
         then None # utf8_scan (c2 # c3 # c4 # r)
         else if is_cont c3
         then Some ((c - 224) * 4096 + (c2 - 128) * 64 + (c3 - 128)) # utf8_scan (c4 # r)
         else None # utf8_scan (c3 # c4 # r))
      else if c < 245 then
        (if \<not> is_cont c2 \<or> (c = 240 \<and> c2 < 144) \<or> (c = 244 \<and> 144 \<le> c2)
         then None # utf8_scan (c2 # c3 # c4 # r)
         else if \<not> is_cont c3 then None # utf8_scan (c3 # c4 # r)
         else if is_cont c4
         then Some ((c - 240) * 262144 + (c2 - 128) * 4096 + (c3 - 128) * 64 + (c4 - 128))
                # utf8_scan r
         else None # utf8_scan (c4 # r))
      else None # utf8_scan (c2 # c3 # c4 # r))"

definition decode_utf8 :: "errors_mode \<Rightarrow> byte list \<Rightarrow> py_error + pystr" where
  "decode_utf8 errs bs =
     (let cs = utf8_scan (map unat bs) in
      case errs of
        Replace \<Rightarrow> Inr (map (\<lambda>c. case c of None \<Rightarrow> 65533 | Some v \<Rightarrow> v) cs)
      | Strict \<Rightarrow> if None \<in> set cs then Inl UnicodeDecodeError else Inr (map the cs))"

text \<open>
  \<open>utf-8-sig\<close> skips a leading byte-order mark; \<open>latin-1\<close> maps every byte to the code
  point of the same number and cannot fail.
\<close>

definition decode :: "encoding \<Rightarrow> errors_mode \<Rightarrow> byte list \<Rightarrow> py_error + pystr" where
  "decode enc errs bs =
     (case enc of
        UTF8 \<Rightarrow> decode_utf8 errs bs
      | UTF8_SIG \<Rightarrow> decode_utf8 errs (if take 3 bs = [0xEF, 0xBB, 0xBF] then drop 3 bs else bs)
      | LATIN1 \<Rightarrow> Inr (map unat bs))"

text \<open>Text mode with universal newlines: \<open>\r\n\<close> and a lone \<open>\r\<close> are read as \<open>\n\<close>.\<close>

fun translate_newlines :: "pystr \<Rightarrow> pystr" where
  "translate_newlines [] = []"
| "translate_newlines [c] = (if c = 13 then [10] else [c])"
| "translate_newlines (c # d # cs) =
     (if c = 13 \<and> d = 10 then 10 # translate_newlines cs
      else if c = 13 then 10 # translate_newlines (d # cs)
      else c # translate_newlines (d # cs))"

text \<open>\<open>f.readlines()\<close>: the lines, each with its line feed; the last one may lack it.\<close>

fun split_lines :: "pystr \<Rightarrow> pystr \<Rightarrow> pystr list" where
  "split_lines cur [] = (if cur = [] then [] else [cur])"
| "split_lines cur (c # cs) =
     (if c = 10 then (cur @ [c]) # split_lines [] cs else split_lines (cur @ [c]) cs)"

definition readlines :: "pystr \<Rightarrow> pystr list" where
  "readlines text = split_lines [] (translate_newlines text)"

text \<open>
  \<open>open(filepath, "r", encoding=enc, errors=errs)\<close> followed by \<open>f.readlines()\<close>: either
  raises.
\<close>

definition open_readlines ::
  "filesystem \<Rightarrow> pystr \<Rightarrow> encoding \<Rightarrow> errors_mode \<Rightarrow> py_error + pystr list" where
  "open_readlines fs filepath enc errs =
     (case open_rb fs filepath of
        Inl e \<Rightarrow> Inl e
      | Inr bs \<Rightarrow> (case decode enc errs bs of Inl e \<Rightarrow> Inl e | Inr text \<Rightarrow> Inr (readlines text)))"

text \<open>
  \<open>read_lines\<close>: the loop over the encodings; \<open>except Exception: continue\<close> goes on to the
  next one, and the empty list is returned when all have raised.
\<close>

fun read_lines_from :: "filesystem \<Rightarrow> pystr \<Rightarrow> encoding list \<Rightarrow> pystr list \<times> io_event list" where
  "read_lines_from fs filepath [] = ([], [])"
| "read_lines_from fs filepath (enc # encs) =
     (case open_readlines fs filepath enc Replace of
        Inr ls \<Rightarrow> (ls, [OpenFile filepath])
      | Inl e \<Rightarrow> (let (ls, t) = read_lines_from fs filepath encs in (ls, OpenFile filepath # t)))"

definition read_lines :: "filesystem \<Rightarrow> pystr \<Rightarrow> pystr list \<times> io_event list" where
  "read_lines fs filepath = read_lines_from fs filepath [UTF8, UTF8_SIG, LATIN1]"

section \<open>The line diff: \<open>difflib.unified_diff\<close>\<close>

text \<open>
  \<open>SequenceMatcher(None, a, b)\<close>: no junk predicate, \<open>autojunk\<close> on.  \<open>b2j\<close> maps a line
  of \<open>b\<close> to the ascending list of its positions; when \<open>b\<close> has at least 200 lines, the
  lines that occur more than \<open>n // 100 + 1\<close> times are purged from it.
\<close>

definition chain_b :: "pystr list \<Rightarrow> (pystr \<rightharpoonup> nat list)" where
  "chain_b b =
     (let b2j = foldl (\<lambda>m (i, elt). m(elt \<mapsto> (case m elt of None \<Rightarrow> [] | Some idxs \<Rightarrow> idxs) @ [i]))
                  Map.empty (enumerate 0 b);
          n = length b
      in if 200 \<le> n
         then (let ntest = n div 100 + 1
               in (\<lambda>elt. case b2j elt of
                            None \<Rightarrow> None
                          | Some idxs \<Rightarrow> if ntest < length idxs then None else Some idxs))
         else b2j)"

type_synonym match = "nat \<times> nat \<times> nat"

text \<open>
  \<open>find_longest_match\<close>.  The inner loop runs over the positions \<open>j\<close> of \<open>a[i]\<close> in
  \<open>b\<close>; \<open>j2len.get(j-1, 0)\<close> is 0 at \<open>j = 0\<close>, where the key \<open>-1\<close> is never present.
  All indices are natural numbers: \<open>i-k+1\<close> is written \<open>i + 1 - k\<close>, and \<open>k \<le> i + 1\<close>
  there (lemma \<open>flm_outer_bounds\<close>).
\<close>

fun flm_inner ::
  "nat \<Rightarrow> nat \<Rightarrow> nat \<Rightarrow> (nat \<rightharpoonup> nat) \<Rightarrow> nat list \<Rightarrow> (nat \<rightharpoonup> nat) \<Rightarrow> match
     \<Rightarrow> (nat \<rightharpoonup> nat) \<times> match" where
  "flm_inner i blo bhi j2len [] newj2len best = (newj2len, best)"
| "flm_inner i blo bhi j2len (j # js) newj2len best =
     (if j < blo then flm_inner i blo bhi j2len js newj2len best
      else if bhi \<le> j then (newj2len, best)
      else (let k = (if j = 0 then 0 else (case j2len (j - 1) of None \<Rightarrow> 0 | Some v \<Rightarrow> v)) + 1
            in flm_inner i blo bhi j2len js (newj2len(j \<mapsto> k))
                 (if snd (snd best) < k then (i + 1 - k, j + 1 - k, k) else best)))"

fun flm_outer ::
  "pystr list \<Rightarrow> (pystr \<rightharpoonup> nat list) \<Rightarrow> nat \<Rightarrow> nat \<Rightarrow> nat list \<Rightarrow> (nat \<rightharpoonup> nat) \<Rightarrow> match
     \<Rightarrow> match" where
  "flm_outer a b2j blo bhi [] j2len best = best"
| "flm_outer a b2j blo bhi (i # is) j2len best =
     (case flm_inner i blo bhi j2len (case b2j (a ! i) of None \<Rightarrow> [] | Some js \<Rightarrow> js)
             Map.empty best of
        (newj2len, best') \<Rightarrow> flm_outer a b2j blo bhi is newj2len best')"

text \<open>
  The two loops that extend the match by equal lines on both ends.  With no junk
  predicate \<open>bjunk\<close> is empty, so the two further loops, over junk lines, never run.
\<close>

function extend_left :: "pystr list \<Rightarrow> pystr list \<Rightarrow> nat \<Rightarrow> nat \<Rightarrow> match \<Rightarrow> match" where
  "extend_left a b alo blo (besti, bestj, bestsize) =
     (if alo < besti \<and> blo < bestj \<and> a ! (besti - 1) = b ! (bestj - 1)
      then extend_left a b alo blo (besti - 1, bestj - 1, bestsize + 1)
      else (besti, bestj, bestsize))"
  by pat_completeness auto
termination
  by (relation "measure (\<lambda>(a, b, alo, blo, besti, bestj, bestsize). besti)") auto

function extend_right :: "pystr list \<Rightarrow> pystr list \<Rightarrow> nat \<Rightarrow> nat \<Rightarrow> match \<Rightarrow> match" where
  "extend_right a b ahi bhi (besti, bestj, bestsize) =
     (if besti + bestsize < ahi \<and> bestj + bestsize < bhi
         \<and> a ! (besti + bestsize) = b ! (bestj + bestsize)
      then extend_right a b ahi bhi (besti, bestj, bestsize + 1)
      else (besti, bestj, bestsize))"
  by pat_completeness auto
termination
  by (relation "measure (\<lambda>(a, b, ahi, bhi, besti, bestj, bestsize). ahi - (besti + bestsize))")
     auto

declare extend_left.simps [simp del] extend_right.simps [simp del]

definition find_longest_match ::
  "pystr list \<Rightarrow> pystr list \<Rightarrow> (pystr \<rightharpoonup> nat list) \<Rightarrow> nat \<Rightarrow> nat \<Rightarrow> nat \<Rightarrow> nat \<Rightarrow> match" where
  "find_longest_match a b b2j alo ahi blo bhi =
     extend_right a b ahi bhi
       (extend_left a b alo blo
          (flm_outer a b2j blo bhi [alo..<ahi] Map.empty (alo, blo, 0)))"

text \<open>A match of positive size found in \<open>a[alo:ahi]\<close> lies inside that range.\<close>

lemma flm_inner_bounds:
  assumes "\<forall>j v. j2len j = Some v \<longrightarrow> v + alo \<le> i"
    and "alo \<le> i" and "i < ahi"
    and "alo \<le> fst best \<and> fst best + snd (snd best) \<le> ahi"
    and "\<forall>j v. newj2len j = Some v \<longrightarrow> v + alo \<le> Suc i"
    and "flm_inner i blo bhi j2len js newj2len best = (nj, best')"
  shows "(alo \<le> fst best' \<and> fst best' + snd (snd best') \<le> ahi)
         \<and> (\<forall>j v. nj j = Some v \<longrightarrow> v + alo \<le> Suc i)"
  using assms
proof (induction js arbitrary: newj2len best)
  case Nil
  then show ?case by simp
next
  case (Cons j js)
  show ?case
  proof (cases "j < blo")
    case True
    with Cons.prems show ?thesis
      by (intro Cons.IH[of best newj2len]) simp_all
  next
    case nlt: False
    show ?thesis
    proof (cases "bhi \<le> j")
      case True
      with nlt Cons.prems show ?thesis by simp
    next
      case False
      define k where "k = (if j = 0 then 0 else (case j2len (j - 1) of None \<Rightarrow> 0 | Some v \<Rightarrow> v)) + 1"
      have kb: "k + alo \<le> Suc i"
        using Cons.prems(1,2) by (auto simp: k_def split: option.splits)
      define best2 where "best2 = (if snd (snd best) < k then (i + 1 - k, j + 1 - k, k) else best)"
      have b2: "alo \<le> fst best2 \<and> fst best2 + snd (snd best2) \<le> ahi"
        using kb Cons.prems(3,4) by (auto simp: best2_def)
      have n2: "\<forall>j' v. (newj2len(j \<mapsto> k)) j' = Some v \<longrightarrow> v + alo \<le> Suc i"
        using kb Cons.prems(5) by auto
      have "flm_inner i blo bhi j2len (j # js) newj2len best
              = flm_inner i blo bhi j2len js (newj2len(j \<mapsto> k)) best2"
        using nlt False by (simp add: k_def best2_def Let_def)
      with Cons.prems(6)
      have "flm_inner i blo bhi j2len js (newj2len(j \<mapsto> k)) best2 = (nj, best')"
        by simp
      from Cons.IH[OF Cons.prems(1,2,3) b2 n2 this] show ?thesis .
    qed
  qed
qed

lemma flm_outer_bounds:
  assumes "is = [m..<ahi]" and "alo \<le> m"
    and "\<forall>j v. j2len j = Some v \<longrightarrow> v + alo \<le> m"
    and "alo \<le> fst best \<and> fst best + snd (snd best) \<le> ahi"
  shows "alo \<le> fst (flm_outer a b2j blo bhi is j2len best)
         \<and> fst (flm_outer a b2j blo bhi is j2len best)
             + snd (snd (flm_outer a b2j blo bhi is j2len best)) \<le> ahi"
  using assms
proof (induction "is" arbitrary: m j2len best)
  case Nil
  then show ?case by simp
next
  case (Cons i "is")
  from Cons.prems(1)[symmetric] have im: "i = m" and lt: "m < ahi" and rest: "is = [Suc m..<ahi]"
    by (auto simp: upt_eq_Cons_conv)
  obtain nj best' where inner:
    "flm_inner i blo bhi j2len (case b2j (a ! i) of None \<Rightarrow> [] | Some js \<Rightarrow> js) Map.empty best
       = (nj, best')"
    by (cases "flm_inner i blo bhi j2len (case b2j (a ! i) of None \<Rightarrow> [] | Some js \<Rightarrow> js) Map.empty best")
  have "(alo \<le> fst best' \<and> fst best' + snd (snd best') \<le> ahi)
         \<and> (\<forall>j v. nj j = Some v \<longrightarrow> v + alo \<le> Suc i)"
    using Cons.prems im lt
    by (intro flm_inner_bounds[OF _ _ _ _ _ inner]) auto
  then show ?case
    using Cons.IH[of "Suc m" nj best'] rest im Cons.prems(2) inner by simp
qed

lemma extend_left_bounds:
  "alo \<le> fst m \<and> fst m + snd (snd m) \<le> ahi \<Longrightarrow>
   alo \<le> fst (extend_left a b alo blo m)
   \<and> fst (extend_left a b alo blo m) + snd (snd (extend_left a b alo blo m)) \<le> ahi"
proof (induction a b alo blo m rule: extend_left.induct)
  case (1 a b alo blo besti bestj bestsize)
  then show ?case
    by (subst (1 2 3) extend_left.simps) auto
qed

lemma extend_right_bounds:
  "alo \<le> fst m \<and> fst m + snd (snd m) \<le> ahi \<Longrightarrow>
   alo \<le> fst (extend_right a b ahi bhi m)
   \<and> fst (extend_right a b ahi bhi m) + snd (snd (extend_right a b ahi bhi m)) \<le> ahi"
proof (induction a b ahi bhi m rule: extend_right.induct)
  case (1 a b ahi bhi besti bestj bestsize)
  then show ?case
    by (subst (1 2 3) extend_right.simps) auto
qed

lemma find_longest_match_bounds:
  assumes "find_longest_match a b b2j alo ahi blo bhi = (i, j, k)" and "k \<noteq> 0"
  shows "alo \<le> i \<and> i + k \<le> ahi"
proof (cases "alo \<le> ahi")
  case True
  have "alo \<le> fst (flm_outer a b2j blo bhi [alo..<ahi] Map.empty (alo, blo, 0))
         \<and> fst (flm_outer a b2j blo bhi [alo..<ahi] Map.empty (alo, blo, 0))
             + snd (snd (flm_outer a b2j blo bhi [alo..<ahi] Map.empty (alo, blo, 0))) \<le> ahi"
    using True by (intro flm_outer_bounds[of _ alo]) auto
  from extend_left_bounds[OF this, of a b blo]
  have "alo \<le> fst (extend_left a b alo blo (flm_outer a b2j blo bhi [alo..<ahi] Map.empty (alo, blo, 0)))
         \<and> fst (extend_left a b alo blo (flm_outer a b2j blo bhi [alo..<ahi] Map.empty (alo, blo, 0)))
             + snd (snd (extend_left a b alo blo (flm_outer a b2j blo bhi [alo..<ahi] Map.empty (alo, blo, 0)))) \<le> ahi" .
  from extend_right_bounds[OF this, of a b bhi] assms(1)
  show ?thesis by (simp add: find_longest_match_def)
next
  case False
  then have "find_longest_match a b b2j alo ahi blo bhi = (alo, blo, 0)"
    by (simp add: find_longest_match_def extend_left.simps extend_right.simps)
  with assms show ?thesis by simp
qed

text \<open>
  The work list of \<open>get_matching_blocks\<close>.  \<open>queue.pop()\<close> takes the element appended
  last, so the list is kept with that element at its head.  The loop ends because a
  match found in a range lies inside it (\<open>find_longest_match_bounds\<close>).
\<close>

function matching_blocks_loop ::
  "pystr list \<Rightarrow> pystr list \<Rightarrow> (pystr \<rightharpoonup> nat list) \<Rightarrow> (nat \<times> nat \<times> nat \<times> nat) list
     \<Rightarrow> match list \<Rightarrow> match list" where
  "matching_blocks_loop a b b2j [] matching_blocks = matching_blocks"
| "matching_blocks_loop a b b2j ((alo, ahi, blo, bhi) # queue) matching_blocks =
     (case find_longest_match a b b2j alo ahi blo bhi of (i, j, k) \<Rightarrow>
        if k \<noteq> 0 then
          matching_blocks_loop a b b2j
            ((if i + k < ahi \<and> j + k < bhi then [(i + k, ahi, j + k, bhi)] else [])
             @ (if alo < i \<and> blo < j then [(alo, i, blo, j)] else []) @ queue)
            (matching_blocks @ [(i, j, k)])
        else matching_blocks_loop a b b2j queue matching_blocks)"
  by pat_completeness auto
termination
proof (relation "measure (\<lambda>(a, b, b2j, queue, mbs).
          sum_list (map (\<lambda>(alo, ahi, blo, bhi). 2 * (ahi - alo) + 1) queue))", goal_cases)
  case 1
  show ?case by simp
next
  case 2
  then show ?case
    by (auto dest!: find_longest_match_bounds[OF sym])
next
  case 3
  then show ?case by simp
qed


declare matching_blocks_loop.simps [simp del]

fun collapse_step :: "match \<times> match list \<Rightarrow> match \<Rightarrow> match \<times> match list" where
  "collapse_step ((i1, j1, k1), non_adjacent) (i2, j2, k2) =
     (if i1 + k1 = i2 \<and> j1 + k1 = j2 then ((i1, j1, k1 + k2), non_adjacent)
      else ((i2, j2, k2), if k1 \<noteq> 0 then non_adjacent @ [(i1, j1, k1)] else non_adjacent))"

definition get_matching_blocks :: "pystr list \<Rightarrow> pystr list \<Rightarrow> match list" where
  "get_matching_blocks a b =
     (let la = length a; lb = length b;
          matching_blocks = sort (matching_blocks_loop a b (chain_b b) [(0, la, 0, lb)] [])
      in case foldl collapse_step ((0, 0, 0), []) matching_blocks of
           ((i1, j1, k1), non_adjacent) \<Rightarrow>
             (if k1 \<noteq> 0 then non_adjacent @ [(i1, j1, k1)] else non_adjacent) @ [(la, lb, 0)])"

datatype optag = OpReplace | OpDelete | OpInsert | OpEqual

type_synonym opcode = "optag \<times> nat \<times> nat \<times> nat \<times> nat"

fun opcodes_from :: "nat \<Rightarrow> nat \<Rightarrow> match list \<Rightarrow> opcode list" where
  "opcodes_from i j [] = []"
| "opcodes_from i j ((ai, bj, sz) # blocks) =
     (if i < ai \<and> j < bj then [(OpReplace, i, ai, j, bj)]
      else if i < ai then [(OpDelete, i, ai, j, bj)]
      else if j < bj then [(OpInsert, i, ai, j, bj)]
      else [])
     @ (if sz \<noteq> 0 then [(OpEqual, ai, ai + sz, bj, bj + sz)] else [])
     @ opcodes_from (ai + sz) (bj + sz) blocks"

definition get_opcodes :: "pystr list \<Rightarrow> pystr list \<Rightarrow> opcode list" where
  "get_opcodes a b = opcodes_from 0 0 (get_matching_blocks a b)"

text \<open>
  \<open>get_grouped_opcodes\<close>: the first and last opcode are trimmed to \<open>n\<close> lines of context
  when they are \<open>equal\<close>, then the loop cuts a group wherever more than \<open>2n\<close> lines are
  unchanged.  \<open>max(i1, i2-n)\<close> on integers is \<open>max i1 (i2 - n)\<close> on naturals, \<open>i1\<close> being
  non-negative.
\<close>

definition trim_first :: "nat \<Rightarrow> opcode list \<Rightarrow> opcode list" where
  "trim_first n codes =
     (case hd codes of (tag, i1, i2, j1, j2) \<Rightarrow>
        if tag = OpEqual then codes[0 := (tag, max i1 (i2 - n), i2, max j1 (j2 - n), j2)]
        else codes)"

definition trim_last :: "nat \<Rightarrow> opcode list \<Rightarrow> opcode list" where
  "trim_last n codes =
     (case last codes of (tag, i1, i2, j1, j2) \<Rightarrow>
        if tag = OpEqual
        then codes[length codes - 1 := (tag, i1, min i2 (i1 + n), j1, min j2 (j1 + n))]
        else codes)"

fun group_loop :: "nat \<Rightarrow> opcode list \<Rightarrow> opcode list \<Rightarrow> opcode list list" where
  "group_loop n [] grp =
     (if grp \<noteq> [] \<and> \<not> (length grp = 1 \<and> fst (hd grp) = OpEqual) then [grp] else [])"
| "group_loop n ((tag, i1, i2, j1, j2) # codes) grp =
     (if tag = OpEqual \<and> n + n < i2 - i1
      then (grp @ [(tag, i1, min i2 (i1 + n), j1, min j2 (j1 + n))])
             # group_loop n codes [(tag, max i1 (i2 - n), i2, max j1 (j2 - n), j2)]
      else group_loop n codes (grp @ [(tag, i1, i2, j1, j2)]))"

definition get_grouped_opcodes :: "pystr list \<Rightarrow> pystr list \<Rightarrow> nat \<Rightarrow> opcode list list" where
  "get_grouped_opcodes a b n =
     (let codes = get_opcodes a b;
          codes = (if codes = [] then [(OpEqual, 0, 1, 0, 1)] else codes)
      in group_loop n (trim_last n (trim_first n codes)) [])"

definition format_range_unified :: "nat \<Rightarrow> nat \<Rightarrow> pystr" where
  "format_range_unified start stop =
     (let beginning = start + 1; len = stop - start
      in if len = 1 then str_nat beginning
         else str_nat (if len = 0 then beginning - 1 else beginning) @ ustr '','' @ str_nat len)"

text \<open>
  \<open>unified_diff\<close> yields strings.  The model yields each string together with the
  \<open>yield\<close> statement it comes from: a file header, a hunk header, a context line
  (\<open>' ' + line\<close>), a removal (\<open>'-' + line\<close>) or an addition (\<open>'+' + line\<close>);
  \<open>unified_diff\<close> itself forgets the tags.  \<open>a[i1:i2]\<close> is \<open>slice a i1 i2\<close>.
\<close>

datatype line_tag = FileHeader | HunkHeader | Context | Removal | Addition

definition slice :: "'a list \<Rightarrow> nat \<Rightarrow> nat \<Rightarrow> 'a list" where
  "slice xs i j = take (j - i) (drop i xs)"

fun opcode_lines :: "pystr list \<Rightarrow> pystr list \<Rightarrow> opcode \<Rightarrow> (line_tag \<times> pystr) list" where
  "opcode_lines a b (tag, i1, i2, j1, j2) =
     (if tag = OpEqual then map (\<lambda>line. (Context, 32 # line)) (slice a i1 i2)
      else (if tag = OpReplace \<or> tag = OpDelete
            then map (\<lambda>line. (Removal, 45 # line)) (slice a i1 i2) else [])
         @ (if tag = OpReplace \<or> tag = OpInsert
            then map (\<lambda>line. (Addition, 43 # line)) (slice b j1 j2) else []))"

definition group_lines :: "pystr list \<Rightarrow> pystr list \<Rightarrow> opcode list \<Rightarrow> (line_tag \<times> pystr) list" where
  "group_lines a b grp =
     (case (hd grp, last grp) of
        ((tag1, first1, first2, first3, first4), (tag2, last1, last2, last3, last4)) \<Rightarrow>
          (HunkHeader, ustr ''@@ -'' @ format_range_unified first1 last2
                         @ ustr '' +'' @ format_range_unified first3 last4 @ ustr '' @@'' @ [10])
          # concat (map (opcode_lines a b) grp))"

definition unified_diff_tagged ::
  "pystr list \<Rightarrow> pystr list \<Rightarrow> pystr \<Rightarrow> pystr \<Rightarrow> nat \<Rightarrow> (line_tag \<times> pystr) list" where
  "unified_diff_tagged a b fromfile tofile n =
     (case get_grouped_opcodes a b n of
        [] \<Rightarrow> []
      | grp # grps \<Rightarrow>
          [(FileHeader, ustr ''--- '' @ fromfile @ [10]),
           (FileHeader, ustr ''+++ '' @ tofile @ [10])]
          @ concat (map (group_lines a b) (grp # grps)))"

definition unified_diff :: "pystr list \<Rightarrow> pystr list \<Rightarrow> pystr \<Rightarrow> pystr \<Rightarrow> nat \<Rightarrow> pystr list" where
  "unified_diff a b fromfile tofile n = map snd (unified_diff_tagged a b fromfile tofile n)"

section \<open>The comparison of one path: \<open>compare_file\<close>\<close>

record FileDiff =
  relative_path :: pystr
  status :: pystr
  location_a :: "pystr option"
  location_b :: "pystr option"
  lines_added :: nat
  lines_removed :: nat
  diff :: "pystr list"

text \<open>
  The branch of \<open>compare_file\<close> for two files whose digests differ, from the call of
  \<open>unified_diff\<close> on.
\<close>

definition modified_record ::
  "pystr \<Rightarrow> pystr \<Rightarrow> pystr \<Rightarrow> pystr list \<Rightarrow> pystr list \<Rightarrow> nat \<Rightarrow> FileDiff option" where
  "modified_record rel_path path_a path_b lines_a lines_b context_lines =
     (let diff_lines = unified_diff lines_a lines_b (ustr ''A/'' @ rel_path)
                         (ustr ''B/'' @ rel_path) context_lines
      in if diff_lines = [] then None
         else
           (let added = length (filter (\<lambda>l. startswith l (ustr ''+'')
                                            \<and> \<not> startswith l (ustr ''+++'')) diff_lines);
                removed = length (filter (\<lambda>l. startswith l (ustr ''-'')
                                              \<and> \<not> startswith l (ustr ''---'')) diff_lines)
            in Some \<lparr>relative_path = rel_path, status = ustr ''modified'',
                      location_a = Some path_a, location_b = Some path_b,
                      lines_added = added, lines_removed = removed,
                      diff = map rstrip_nl diff_lines\<rparr>))"

text \<open>
  \<open>compare_file\<close>, with the file-system operations it performs, in order.  The
  dataclass defaults give \<open>lines_added = 0\<close>, \<open>lines_removed = 0\<close> and \<open>diff = []\<close> to
  the records of the last two branches.
\<close>

definition compare_file ::
  "filesystem \<Rightarrow> pystr \<Rightarrow> pystr \<Rightarrow> pystr \<Rightarrow> nat \<Rightarrow> FileDiff option \<times> io_event list" where
  "compare_file fs rel_path path_a path_b context_lines =
     (let (exists_a, t1) = isfile fs path_a;
          (exists_b, t2) = isfile fs path_b
      in if exists_a \<and> exists_b then
           (let (hash_a, t3) = fast_hash fs path_a;
                (hash_b, t4) = fast_hash fs path_b
            in if hash_a = hash_b then (None, t1 @ t2 @ t3 @ t4)
               else
                 (let (lines_a, t5) = read_lines fs path_a;
                      (lines_b, t6) = read_lines fs path_b
                  in (modified_record rel_path path_a path_b lines_a lines_b context_lines,
                      t1 @ t2 @ t3 @ t4 @ t5 @ t6)))
         else if exists_a \<and> \<not> exists_b then
           (Some \<lparr>relative_path = rel_path, status = ustr ''removed'',
                   location_a = Some path_a, location_b = None,
                   lines_added = 0, lines_removed = 0, diff = []\<rparr>, t1 @ t2)
         else if \<not> exists_a \<and> exists_b then
           (Some \<lparr>relative_path = rel_path, status = ustr ''added'',
                   location_a = None, location_b = Some path_b,
                   lines_added = 0, lines_removed = 0, diff = []\<rparr>, t1 @ t2)
         else (None, t1 @ t2))"

section \<open>The decoding chain in the words of the specification\<close>

text \<open>
  The specification describes the decoding as a chain: strict UTF-8, then UTF-8 that
  tolerates a byte-order mark, then a single-byte decoder that accepts every byte
  sequence.  This is that chain, to be compared with \<open>read_lines\<close>.
\<close>

definition spec_fallback_chain :: "byte list \<Rightarrow> pystr" where
  "spec_fallback_chain bs =
     (case decode UTF8 Strict bs of
        Inr text \<Rightarrow> text
      | Inl e \<Rightarrow>
          (case decode UTF8_SIG Strict bs of
             Inr text \<Rightarrow> text
           | Inl e \<Rightarrow> (case decode LATIN1 Replace bs of Inr text \<Rightarrow> text | Inl e \<Rightarrow> [])))"

section \<open>Scanning a tree: \<open>collect_source_files\<close>\<close>

text \<open>
  What the scan takes from the platform: the path functions of \<open>os.path\<close>, the
  directory walk \<open>os.walk\<close> (for a root, the triples of directory path, sub-directory
  names and file names it yields) and \<open>str.lower\<close>.  They differ between platforms, so
  they are parameters, and what is proved holds for each of them.
\<close>

record os_env =
  abspath :: "pystr \<Rightarrow> pystr"
  join :: "pystr \<Rightarrow> pystr \<Rightarrow> pystr"
  relpath :: "pystr \<Rightarrow> pystr \<Rightarrow> pystr"
  splitext :: "pystr \<Rightarrow> pystr \<times> pystr"
  walk :: "pystr \<Rightarrow> (pystr \<times> pystr list \<times> pystr list) list"
  lower :: "pystr \<Rightarrow> pystr"

definition DEFAULT_EXTENSIONS :: "pystr set" where
  "DEFAULT_EXTENSIONS = set (map ustr
     [''.h'', ''.hpp'', ''.hxx'', ''.c'', ''.cpp'', ''.cxx'', ''.cc'', ''.inl'', ''.inc'',
      ''.cs'', ''.usf'', ''.ush'', ''.py'', ''.xml'', ''.json'', ''.ini'', ''.cfg'',
      ''.uproject'', ''.uplugin''])"

definition COMPOUND_EXTENSIONS :: "pystr list" where
  "COMPOUND_EXTENSIONS = [ustr ''.build.cs'', ustr ''.target.cs'']"

text \<open>
  The result dictionary is an association list in insertion order; \<open>result[k] = v\<close> is
  \<open>AList.update\<close>, which replaces the value of a key that is present and appends a new
  key.  The inner loop runs over the file names of one directory, the outer loop over
  the triples of the walk.
\<close>

type_synonym path_index = "(pystr \<times> pystr) list"

fun collect_directory ::
  "os_env \<Rightarrow> pystr \<Rightarrow> pystr set \<Rightarrow> pystr \<Rightarrow> pystr list \<Rightarrow> path_index \<Rightarrow> path_index" where
  "collect_directory os root extensions dirpath [] result = result"
| "collect_directory os root extensions dirpath (fname # filenames) result =
     (let ext = lower os (snd (splitext os fname))
      in if ext \<in> extensions
            \<or> list_ex (\<lambda>ce. endswith (lower os fname) ce) COMPOUND_EXTENSIONS
         then (let abs_path = join os dirpath fname;
                   rel_path = relpath os abs_path root
               in collect_directory os root extensions dirpath filenames
                    (AList.update rel_path abs_path result))
         else collect_directory os root extensions dirpath filenames result)"

fun collect_walk ::
  "os_env \<Rightarrow> pystr \<Rightarrow> pystr set \<Rightarrow> (pystr \<times> pystr list \<times> pystr list) list \<Rightarrow> path_index
     \<Rightarrow> path_index" where
  "collect_walk os root extensions [] result = result"
| "collect_walk os root extensions ((dirpath, dirnames, filenames) # triples) result =
     collect_walk os root extensions triples
       (collect_directory os root extensions dirpath filenames result)"

definition collect_source_files :: "os_env \<Rightarrow> pystr \<Rightarrow> pystr set \<Rightarrow> path_index" where
  "collect_source_files os root extensions =
     (let root = abspath os root in collect_walk os root extensions (walk os root) [])"

section \<open>The run: \<open>_comparison_worker\<close>\<close>

record summary =
  engine_a :: pystr
  engine_b :: pystr
  total_files_scanned :: nat
  files_modified :: nat
  files_added :: nat
  files_removed :: nat
  total_lines_added :: nat
  total_lines_removed :: nat

record report =
  summary :: summary
  differences :: "FileDiff list"

text \<open>\<open>sorted(set(files_a.keys()) | set(files_b.keys()))\<close>.\<close>

definition all_paths :: "path_index \<Rightarrow> path_index \<Rightarrow> pystr list" where
  "all_paths files_a files_b =
     sorted_list_of_set (set (map fst files_a) \<union> set (map fst files_b))"

text \<open>
  The nested function \<open>worker\<close>, for a run that is not cancelled: \<open>d.get(k, default)\<close>
  is the lookup with a default.
\<close>

definition worker ::
  "os_env \<Rightarrow> filesystem \<Rightarrow> pystr \<Rightarrow> pystr \<Rightarrow> path_index \<Rightarrow> path_index \<Rightarrow> nat \<Rightarrow> pystr
     \<Rightarrow> FileDiff option" where
  "worker os fs ea eb files_a files_b ctx rel_path =
     (let path_a = (case map_of files_a rel_path of
                      Some p \<Rightarrow> p | None \<Rightarrow> join os ea rel_path);
          path_b = (case map_of files_b rel_path of
                      Some p \<Rightarrow> p | None \<Rightarrow> join os eb rel_path)
      in fst (compare_file fs rel_path path_a path_b ctx))"

text \<open>Lines 680 to 692: the sort by \<open>relative_path\<close>, the summary and the report.\<close>

definition build_report :: "pystr \<Rightarrow> pystr \<Rightarrow> nat \<Rightarrow> FileDiff list \<Rightarrow> report" where
  "build_report ea eb total_paths diffs0 =
     (let diffs = sort_key relative_path diffs0
      in \<lparr>summary =
            \<lparr>engine_a = ea, engine_b = eb,
             total_files_scanned = total_paths,
             files_modified = length (filter (\<lambda>d. status d = ustr ''modified'') diffs),
             files_added = length (filter (\<lambda>d. status d = ustr ''added'') diffs),
             files_removed = length (filter (\<lambda>d. status d = ustr ''removed'') diffs),
             total_lines_added = sum_list (map lines_added diffs),
             total_lines_removed = sum_list (map lines_removed diffs)\<rparr>,
          differences = diffs\<rparr>)"

text \<open>
  A run of \<open>_comparison_worker\<close>.  Two things are not decided by its arguments.  The
  user may cancel: the flag \<open>should_cancel\<close> is only ever set during a run, and whether
  it is seen after the first scan or during the comparison, the run returns without a
  report.  And the pool runs the workers concurrently: \<open>order\<close> is the order in which
  their results are appended to \<open>diffs\<close>, a permutation of the plan \<open>all_paths\<close> in a
  run that is not cancelled.  A run with an empty plan returns without a report too.
  The result is the report dictionary that is then written to disk.
\<close>

datatype cancellation = NotCancelled | CancelledAfterScan | CancelledWhileComparing

definition comparison_worker ::
  "os_env \<Rightarrow> filesystem \<Rightarrow> pystr \<Rightarrow> pystr \<Rightarrow> nat \<Rightarrow> cancellation \<Rightarrow> pystr list
     \<Rightarrow> report option" where
  "comparison_worker os fs engine_a_dir engine_b_dir ctx cancel order =
     (let ea = abspath os engine_a_dir;
          eb = abspath os engine_b_dir;
          extensions = DEFAULT_EXTENSIONS;
          files_a = collect_source_files os ea extensions
      in if cancel = CancelledAfterScan then None
         else
           (let files_b = collect_source_files os eb extensions;
                plan = all_paths files_a files_b;
                total_paths = length plan
            in if total_paths = 0 then None
               else
                 (let diffs = List.map_filter (worker os fs ea eb files_a files_b ctx) order
                  in if cancel = CancelledWhileComparing then None
                     else Some (build_report ea eb total_paths diffs))))"

text \<open>
  An instance of the platform for running the model on concrete trees.  It is not
  \<open>os.path\<close>: it agrees with the POSIX functions on roots that are absolute and
  normalised, without a trailing separator, on file names without a separator, and on
  ASCII names, and it is used on such arguments only.  Joining is with \<open>/\<close>; a path is
  made relative to a root by dropping the root and the separator; the extension runs
  from the last dot on; lower-casing is that of the ASCII letters.
\<close>

definition ascii_lower :: "pystr \<Rightarrow> pystr" where
  "ascii_lower s = map (\<lambda>c. if 65 \<le> c \<and> c \<le> 90 then c + 32 else c) s"

definition dot_ext :: "pystr \<Rightarrow> pystr \<times> pystr" where
  "dot_ext fname =
     (let stem = rev (drop 1 (dropWhile (\<lambda>c. c \<noteq> 46) (rev fname)))
      in if 46 \<in> set fname \<and> list_ex (\<lambda>c. c \<noteq> 46) stem
         then (stem, drop (length stem) fname) else (fname, []))"

definition posix_env :: "(pystr \<Rightarrow> (pystr \<times> pystr list \<times> pystr list) list) \<Rightarrow> os_env" where
  "posix_env w =
     \<lparr>abspath = (\<lambda>p. p),
      join = (\<lambda>d f. d @ [47] @ f),
      relpath = (\<lambda>p start. drop (length start + 1) p),
      splitext = dot_ext,
      walk = w,
      lower = ascii_lower\<rparr>"

text \<open>
  A small pair of trees for running the model.  Under \<open>/A\<close>: \<open>f.h\<close> (not readable),
  \<open>bar.cpp\<close> and \<open>notes.txt\<close>; under \<open>/B\<close>: \<open>f.h\<close> (not readable) and \<open>baz.cpp\<close>.
\<close>

definition demo_walk :: "pystr \<Rightarrow> (pystr \<times> pystr list \<times> pystr list) list" where
  "demo_walk root =
     (if root = ustr ''/A'' then [(root, [], [ustr ''f.h'', ustr ''bar.cpp'', ustr ''notes.txt''])]
      else [(root, [], [ustr ''f.h'', ustr ''baz.cpp''])])"

definition demo_fs :: filesystem where
  "demo_fs = [ustr ''/A/f.h'' \<mapsto> Unreadable, ustr ''/A/bar.cpp'' \<mapsto> Readable [0x76, 0x0A],
              ustr ''/A/notes.txt'' \<mapsto> Readable [],
              ustr ''/B/f.h'' \<mapsto> Unreadable, ustr ''/B/baz.cpp'' \<mapsto> Readable [0x77, 0x0A]]"

section \<open>Digests and line reading, case by case\<close>

lemma length_le_bytes: "length (le_bytes k v) = k"
  by (simp add: le_bytes_def)

lemma length_md5_digest: "length (md5_digest bs) = 16"
  by (simp add: md5_digest_def Let_def length_le_bytes split: prod.splits)

lemma length_hex_pairs: "length (concat (map (\<lambda>b. [f b, g b]) xs)) = 2 * length xs"
  by (induction xs) auto

lemma length_hexdigest: "length (hexdigest bs) = 32"
  by (simp add: hexdigest_def length_hex_pairs length_md5_digest)

lemma foldl_append_concat: "foldl (@) acc xs = acc @ concat xs"
  by (induction xs arbitrary: acc) auto

lemma concat_read_chunks: "0 < n \<Longrightarrow> concat (read_chunks n bs) = bs"
proof (induction n bs rule: read_chunks.induct)
  case (1 n bs)
  then show ?case
    by (subst read_chunks.simps) auto
qed

lemma fast_hash_Readable:
  "fs p = Some (Readable bs) \<Longrightarrow> fast_hash fs p = (hexdigest bs, [OpenFile p])"
  by (simp add: fast_hash_def open_rb_def foldl_append_concat concat_read_chunks)

lemma fast_hash_Unreadable:
  "fs p = Some Unreadable \<Longrightarrow> fast_hash fs p = ([], [OpenFile p])"
  by (simp add: fast_hash_def open_rb_def)

lemma hexdigest_nonempty: "hexdigest bs \<noteq> []"
  using length_hexdigest[of bs] by auto

lemma decode_utf8_Replace:
  "decode_utf8 Replace bs = Inr (map (\<lambda>c. case c of None \<Rightarrow> 65533 | Some v \<Rightarrow> v) (utf8_scan (map unat bs)))"
  by (simp add: decode_utf8_def)

lemma read_lines_Readable:
  "fs p = Some (Readable bs) \<Longrightarrow>
   read_lines fs p =
     (readlines (map (\<lambda>c. case c of None \<Rightarrow> 65533 | Some v \<Rightarrow> v) (utf8_scan (map unat bs))),
      [OpenFile p])"
  by (simp add: read_lines_def open_readlines_def open_rb_def decode_def decode_utf8_Replace)

lemma read_lines_Unreadable:
  "fs p = Some Unreadable \<Longrightarrow> read_lines fs p = ([], [OpenFile p, OpenFile p, OpenFile p])"
  by (simp add: read_lines_def open_readlines_def open_rb_def)


section \<open>Unchanged files\<close>



section \<open>Files on one side only, and on neither\<close>

text \<open>
  Claim C4.  A path whose file exists only under root A gives the record with status
  \<open>removed\<close>, \<open>location_b\<close> absent, both counts 0 and an empty diff; a file only under
  root B gives status \<open>added\<close> with \<open>location_a\<close> absent.  The file system is asked the two
  existence tests and nothing else: no file is opened.
\<close>

theorem compare_file_one_side:
  "(fs path_a \<noteq> None \<and> fs path_b = None \<longrightarrow>
      compare_file fs rel_path path_a path_b n =
        (Some \<lparr>relative_path = rel_path, status = ustr ''removed'',
                location_a = Some path_a, location_b = None,
                lines_added = 0, lines_removed = 0, diff = []\<rparr>,
         [IsFile path_a, IsFile path_b]))
   \<and> (fs path_a = None \<and> fs path_b \<noteq> None \<longrightarrow>
      compare_file fs rel_path path_a path_b n =
        (Some \<lparr>relative_path = rel_path, status = ustr ''added'',
                location_a = None, location_b = Some path_b,
                lines_added = 0, lines_removed = 0, diff = []\<rparr>,
         [IsFile path_a, IsFile path_b]))"
  by (simp add: compare_file_def isfile_def)

theorem compare_file_one_side_witness:
  "compare_file [ustr ''/A/bar.cpp'' \<mapsto> Readable [0x76, 0x0A]]
     (ustr ''bar.cpp'') (ustr ''/A/bar.cpp'') (ustr ''/B/bar.cpp'') 3 =
     (Some \<lparr>relative_path = ustr ''bar.cpp'', status = ustr ''removed'',
             location_a = Some (ustr ''/A/bar.cpp''), location_b = None,
             lines_added = 0, lines_removed = 0, diff = []\<rparr>,
      [IsFile (ustr ''/A/bar.cpp''), IsFile (ustr ''/B/bar.cpp'')])
   \<and> compare_file [ustr ''/B/baz.cpp'' \<mapsto> Unreadable]
     (ustr ''baz.cpp'') (ustr ''/A/baz.cpp'') (ustr ''/B/baz.cpp'') 3 =
     (Some \<lparr>relative_path = ustr ''baz.cpp'', status = ustr ''added'',
             location_a = None, location_b = Some (ustr ''/B/baz.cpp''),
             lines_added = 0, lines_removed = 0, diff = []\<rparr>,
      [IsFile (ustr ''/A/baz.cpp''), IsFile (ustr ''/B/baz.cpp'')])"
  using compare_file_one_side[of "[ustr ''/A/bar.cpp'' \<mapsto> Readable [0x76, 0x0A]]"
          "ustr ''/A/bar.cpp''" "ustr ''/B/bar.cpp''" "ustr ''bar.cpp''" 3]
        compare_file_one_side[of "[ustr ''/B/baz.cpp'' \<mapsto> Unreadable]"
          "ustr ''/A/baz.cpp''" "ustr ''/B/baz.cpp''" "ustr ''baz.cpp''" 3]
  by (simp add: ustr_def)

text \<open>
  Claim C9.  A path whose file exists on neither side gives no record, after the two
  existence tests alone; nothing is raised.
\<close>

theorem compare_file_neither:
  "fs path_a = None \<Longrightarrow> fs path_b = None \<Longrightarrow>
   compare_file fs rel_path path_a path_b n = (None, [IsFile path_a, IsFile path_b])"
  by (simp add: compare_file_def isfile_def)

theorem compare_file_neither_witness:
  "compare_file [ustr ''/A/other.h'' \<mapsto> Readable []]
     (ustr ''gone.h'') (ustr ''/A/gone.h'') (ustr ''/B/gone.h'') 3
   = (None, [IsFile (ustr ''/A/gone.h''), IsFile (ustr ''/B/gone.h'')])"
  using compare_file_neither[of "[ustr ''/A/other.h'' \<mapsto> Readable []]"
          "ustr ''/A/gone.h''" "ustr ''/B/gone.h''" "ustr ''gone.h''" 3]
  by (simp add: ustr_def)


section \<open>The stored diff of a modified file\<close>

lemma endswith_single: "endswith t [c] = (t \<noteq> [] \<and> last t = c)"
  by (cases t rule: rev_cases) (auto simp: endswith_def)

lemma rstrip_nl_no_trailing: "\<not> endswith (rstrip_nl s) [10]"
proof -
  have "dropWhile (\<lambda>c. c = 10) (rev s) \<noteq> [] \<Longrightarrow> hd (dropWhile (\<lambda>c. c = 10) (rev s)) \<noteq> 10"
    using hd_dropWhile[of "\<lambda>c. c = 10" "rev s"] by simp
  then show ?thesis
    by (auto simp: endswith_single rstrip_nl_def last_rev)
qed

lemma rstrip_nl_keeps_prefix:
  assumes "p \<noteq> []" and "last p \<noteq> 10"
  shows "take (length p) (rstrip_nl (p @ s)) = p"
proof -
  from assms(1) obtain q x where p: "p = q @ [x]"
    by (cases p rule: rev_cases) auto
  with assms(2) have "x \<noteq> 10" by simp
  then have "dropWhile (\<lambda>c. c = 10) (rev p) = rev p"
    by (simp add: p)
  then show ?thesis
    by (simp add: rstrip_nl_def dropWhile_append)
qed

lemma startswith_via_prefix:
  assumes "take (length p) s = p" and "startswith p q"
  shows "startswith s q"
proof -
  have "length (take (length q) p) = length q"
    using assms(2) by (simp add: startswith_def)
  then have "length q \<le> length p" by simp
  then have "take (length q) s = take (length q) (take (length p) s)"
    by (simp add: min_def)
  with assms show ?thesis by (simp add: startswith_def)
qed

lemma header_a_stored:
  "startswith (rstrip_nl (ustr ''--- '' @ fromfile @ [10])) (ustr ''---'')"
proof -
  have "take (length (ustr ''--- '')) (rstrip_nl (ustr ''--- '' @ (fromfile @ [10])))
          = ustr ''--- ''"
    by (rule rstrip_nl_keeps_prefix) (simp_all add: ustr_def)
  moreover have "startswith (ustr ''--- '') (ustr ''---'')"
    by (simp add: ustr_def startswith_def)
  ultimately show ?thesis by (rule startswith_via_prefix)
qed

lemma header_b_stored:
  "startswith (rstrip_nl (ustr ''+++ '' @ tofile @ [10])) (ustr ''+++'')"
proof -
  have "take (length (ustr ''+++ '')) (rstrip_nl (ustr ''+++ '' @ (tofile @ [10])))
          = ustr ''+++ ''"
    by (rule rstrip_nl_keeps_prefix) (simp_all add: ustr_def)
  moreover have "startswith (ustr ''+++ '') (ustr ''+++'')"
    by (simp add: ustr_def startswith_def)
  ultimately show ?thesis by (rule startswith_via_prefix)
qed

lemma unified_diff_headers:
  "unified_diff a b fromfile tofile n = [] \<or>
   (\<exists>rest. unified_diff a b fromfile tofile n =
      (ustr ''--- '' @ fromfile @ [10]) # (ustr ''+++ '' @ tofile @ [10]) # rest)"
  by (simp add: unified_diff_def unified_diff_tagged_def split: list.splits)

lemma compare_file_result:
  "fst (compare_file fs rel_path path_a path_b n) =
     (if fs path_a \<noteq> None \<and> fs path_b \<noteq> None then
        (if fst (fast_hash fs path_a) = fst (fast_hash fs path_b) then None
         else modified_record rel_path path_a path_b
                (fst (read_lines fs path_a)) (fst (read_lines fs path_b)) n)
      else if fs path_a \<noteq> None then
        Some \<lparr>relative_path = rel_path, status = ustr ''removed'',
               location_a = Some path_a, location_b = None,
               lines_added = 0, lines_removed = 0, diff = []\<rparr>
      else if fs path_b \<noteq> None then
        Some \<lparr>relative_path = rel_path, status = ustr ''added'',
               location_a = None, location_b = Some path_b,
               lines_added = 0, lines_removed = 0, diff = []\<rparr>
      else None)"
  by (simp add: compare_file_def isfile_def Let_def case_prod_beta)

lemma status_distinct:
  "ustr ''removed'' \<noteq> ustr ''modified''" "ustr ''added'' \<noteq> ustr ''modified''"
  "ustr ''removed'' \<noteq> ustr ''added''"
  by (simp_all add: ustr_def)

lemma compare_file_modified_cases:
  assumes "fst (compare_file fs rel_path path_a path_b n) = Some r"
    and "status r = ustr ''modified''"
  shows "modified_record rel_path path_a path_b
           (fst (read_lines fs path_a)) (fst (read_lines fs path_b)) n = Some r"
proof (cases "fs path_a \<noteq> None \<and> fs path_b \<noteq> None")
  case True
  with assms(1) show ?thesis
    by (simp add: compare_file_result split: if_splits)
next
  case False
  with assms(1) have "status r = ustr ''removed'' \<or> status r = ustr ''added''"
    by (auto simp: compare_file_result split: if_splits)
  with assms(2) status_distinct show ?thesis by simp
qed


text \<open>
  Claim C10.  A record with status \<open>modified\<close> has a diff of at least two lines; the
  first two are the file headers of side A and side B, \<open>--- A/<path>\<close> and
  \<open>+++ B/<path>\<close> with the line feed stripped, so they begin with \<open>---\<close> and \<open>+++\<close>; and no
  stored line ends with a line feed.
\<close>

theorem modified_record_diff_shape:
  assumes "fst (compare_file fs rel_path path_a path_b n) = Some r"
    and "status r = ustr ''modified''"
  shows "diff r \<noteq> [] \<and> 2 \<le> length (diff r)
         \<and> diff r ! 0 = rstrip_nl (ustr ''--- A/'' @ rel_path @ [10])
         \<and> diff r ! 1 = rstrip_nl (ustr ''+++ B/'' @ rel_path @ [10])
         \<and> startswith (diff r ! 0) (ustr ''---'')
         \<and> startswith (diff r ! 1) (ustr ''+++'')
         \<and> (\<forall>l \<in> set (diff r). \<not> endswith l [10])"
proof -
  define lines_a where "lines_a = fst (read_lines fs path_a)"
  define lines_b where "lines_b = fst (read_lines fs path_b)"
  from compare_file_modified_cases[OF assms] have
    m: "modified_record rel_path path_a path_b lines_a lines_b n = Some r"
    by (simp add: lines_a_def lines_b_def)
  define d where "d = unified_diff lines_a lines_b (ustr ''A/'' @ rel_path) (ustr ''B/'' @ rel_path) n"
  from m have nonempty: "d \<noteq> []" and dr: "diff r = map rstrip_nl d"
    by (auto simp: modified_record_def Let_def d_def split: if_splits)
  from unified_diff_headers[of lines_a lines_b "ustr ''A/'' @ rel_path" "ustr ''B/'' @ rel_path" n]
    nonempty
  obtain rest where d_eq:
    "d = (ustr ''--- '' @ (ustr ''A/'' @ rel_path) @ [10])
         # (ustr ''+++ '' @ (ustr ''B/'' @ rel_path) @ [10]) # rest"
    by (auto simp: d_def)
  have pa: "ustr ''--- '' @ ustr ''A/'' @ rel_path @ [10] = ustr ''--- A/'' @ rel_path @ [10]"
    and pb: "ustr ''+++ '' @ ustr ''B/'' @ rel_path @ [10] = ustr ''+++ B/'' @ rel_path @ [10]"
    by (simp_all add: ustr_def)
  have h0: "diff r ! 0 = rstrip_nl (ustr ''--- A/'' @ rel_path @ [10])"
    by (simp add: dr d_eq pa)
  have h1: "diff r ! 1 = rstrip_nl (ustr ''+++ B/'' @ rel_path @ [10])"
    by (simp add: dr d_eq pb)
  have s0: "startswith (diff r ! 0) (ustr ''---'')"
    using header_a_stored[of "ustr ''A/'' @ rel_path"] h0 pa by simp
  have s1: "startswith (diff r ! 1) (ustr ''+++'')"
    using header_b_stored[of "ustr ''B/'' @ rel_path"] h1 pb by simp
  have nl: "\<forall>l \<in> set (diff r). \<not> endswith l [10]"
    using dr rstrip_nl_no_trailing by auto
  have len: "2 \<le> length (diff r)"
    by (simp add: dr d_eq)
  then have ne: "diff r \<noteq> []" by auto
  from ne len h0 h1 s0 s1 nl show ?thesis by blast
qed


lemma modified_record_example:
  "modified_record (ustr ''f.h'') (ustr ''/A/f.h'') (ustr ''/B/f.h'') [] [[120, 10]] 3
   = Some \<lparr>relative_path = ustr ''f.h'', status = ustr ''modified'',
             location_a = Some (ustr ''/A/f.h''), location_b = Some (ustr ''/B/f.h''),
             lines_added = 1, lines_removed = 0,
             diff = [ustr ''--- A/f.h'', ustr ''+++ B/f.h'', ustr ''@@ -0,0 +1 @@'', ustr ''+x'']\<rparr>"
  by code_simp

lemma readlines_example:
  "readlines (map (\<lambda>c. case c of None \<Rightarrow> 65533 | Some v \<Rightarrow> v)
                (utf8_scan (map unat [0x78, 0x0A :: byte]))) = [[120, 10]]"
  by (simp add: readlines_def)

lemma paths_distinct: "ustr ''/A/f.h'' \<noteq> ustr ''/B/f.h''"
  by (simp add: ustr_def)

lemma compare_file_example:
  "fst (compare_file [ustr ''/A/f.h'' \<mapsto> Unreadable, ustr ''/B/f.h'' \<mapsto> Readable [0x78, 0x0A]]
         (ustr ''f.h'') (ustr ''/A/f.h'') (ustr ''/B/f.h'') 3)
   = Some \<lparr>relative_path = ustr ''f.h'', status = ustr ''modified'',
             location_a = Some (ustr ''/A/f.h''), location_b = Some (ustr ''/B/f.h''),
             lines_added = 1, lines_removed = 0,
             diff = [ustr ''--- A/f.h'', ustr ''+++ B/f.h'', ustr ''@@ -0,0 +1 @@'', ustr ''+x'']\<rparr>"
proof -
  let ?fs = "[ustr ''/A/f.h'' \<mapsto> Unreadable, ustr ''/B/f.h'' \<mapsto> Readable [0x78, 0x0A]]"
  have a: "?fs (ustr ''/A/f.h'') = Some Unreadable"
    and b: "?fs (ustr ''/B/f.h'') = Some (Readable [0x78, 0x0A])"
    using paths_distinct by simp_all
  have h: "fst (fast_hash ?fs (ustr ''/A/f.h'')) \<noteq> fst (fast_hash ?fs (ustr ''/B/f.h''))"
    using hexdigest_nonempty[of "[0x78, 0x0A]"]
    unfolding fast_hash_Unreadable[where fs="?fs", OF a] fast_hash_Readable[where fs="?fs", OF b]
    by simp
  have la: "fst (read_lines ?fs (ustr ''/A/f.h'')) = []"
    by (simp only: read_lines_Unreadable[where fs="?fs", OF a] fst_conv)
  have lb: "fst (read_lines ?fs (ustr ''/B/f.h'')) = [[120, 10]]"
    by (simp only: read_lines_Readable[where fs="?fs", OF b] fst_conv readlines_example)
  show ?thesis
    unfolding compare_file_result
    by (simp add: a b h la lb modified_record_example)
qed

theorem modified_record_diff_shape_witness:
  "fst (compare_file [ustr ''/A/f.h'' \<mapsto> Unreadable, ustr ''/B/f.h'' \<mapsto> Readable [0x78, 0x0A]]
         (ustr ''f.h'') (ustr ''/A/f.h'') (ustr ''/B/f.h'') 3)
   = Some \<lparr>relative_path = ustr ''f.h'', status = ustr ''modified'',
             location_a = Some (ustr ''/A/f.h''), location_b = Some (ustr ''/B/f.h''),
             lines_added = 1, lines_removed = 0,
             diff = [ustr ''--- A/f.h'', ustr ''+++ B/f.h'', ustr ''@@ -0,0 +1 @@'', ustr ''+x'']\<rparr>
   \<and> rstrip_nl (ustr ''--- A/'' @ ustr ''f.h'' @ [10]) = ustr ''--- A/f.h''
   \<and> rstrip_nl (ustr ''+++ B/'' @ ustr ''f.h'' @ [10]) = ustr ''+++ B/f.h''
   \<and> startswith (ustr ''--- A/f.h'') (ustr ''---'')
   \<and> startswith (ustr ''+++ B/f.h'') (ustr ''+++'')
   \<and> \<not> endswith (ustr ''--- A/f.h'') [10] \<and> \<not> endswith (ustr ''+++ B/f.h'') [10]
   \<and> \<not> endswith (ustr ''@@ -0,0 +1 @@'') [10] \<and> \<not> endswith (ustr ''+x'') [10]"
proof -
  note shape = modified_record_diff_shape[OF compare_file_example]
  have "rstrip_nl (ustr ''--- A/'' @ ustr ''f.h'' @ [10]) = ustr ''--- A/f.h''"
    and "rstrip_nl (ustr ''+++ B/'' @ ustr ''f.h'' @ [10]) = ustr ''+++ B/f.h''"
    and "startswith (ustr ''--- A/f.h'') (ustr ''---'')"
    and "startswith (ustr ''+++ B/f.h'') (ustr ''+++'')"
    and "\<not> endswith (ustr ''--- A/f.h'') [10]" and "\<not> endswith (ustr ''+++ B/f.h'') [10]"
    and "\<not> endswith (ustr ''@@ -0,0 +1 @@'') [10]" and "\<not> endswith (ustr ''+x'') [10]"
    using shape by (simp_all add: ustr_def rstrip_nl_def startswith_def endswith_def)
  with compare_file_example show ?thesis by blast
qed

section \<open>Unreadable files\<close>

text \<open>
  Claim C2 says that two distinct unreadable files are never reported as unchanged.
  They are: \<open>fast_hash\<close> returns the empty string for both, the two digests are equal,
  and \<open>compare_file\<close> returns no record.
\<close>

theorem unreadable_pair_counterexample:
  "ustr ''/A/f.h'' \<noteq> ustr ''/B/f.h''
   \<and> fst (compare_file [ustr ''/A/f.h'' \<mapsto> Unreadable, ustr ''/B/f.h'' \<mapsto> Unreadable]
           (ustr ''f.h'') (ustr ''/A/f.h'') (ustr ''/B/f.h'') 3) = None"
  using paths_distinct
  by (simp add: compare_file_result fast_hash_Unreadable)

text \<open>
  Claim C2, as the code has it.  For two existing files that both cannot be read, both
  digests are the empty string and there is no record.  When exactly one cannot be read,
  the digests differ (a real digest has 32 digits), the unreadable file is read as the
  empty list of lines, and the record is the one of the diff of that empty list against
  the lines of the other file.
\<close>

theorem compare_file_unreadable:
  "(fs path_a = Some Unreadable \<and> fs path_b = Some Unreadable \<longrightarrow>
      fst (fast_hash fs path_a) = [] \<and> fst (fast_hash fs path_b) = []
      \<and> fst (compare_file fs rel_path path_a path_b n) = None)
   \<and> (fs path_a = Some Unreadable \<and> fs path_b = Some (Readable bs) \<longrightarrow>
      fst (fast_hash fs path_a) \<noteq> fst (fast_hash fs path_b)
      \<and> fst (read_lines fs path_a) = []
      \<and> fst (compare_file fs rel_path path_a path_b n)
          = modified_record rel_path path_a path_b [] (fst (read_lines fs path_b)) n)
   \<and> (fs path_a = Some (Readable bs) \<and> fs path_b = Some Unreadable \<longrightarrow>
      fst (fast_hash fs path_a) \<noteq> fst (fast_hash fs path_b)
      \<and> fst (read_lines fs path_b) = []
      \<and> fst (compare_file fs rel_path path_a path_b n)
          = modified_record rel_path path_a path_b (fst (read_lines fs path_a)) [] n)"
  using hexdigest_nonempty[of bs]
  by (auto simp: compare_file_result fast_hash_Unreadable fast_hash_Readable
        read_lines_Unreadable)

theorem compare_file_unreadable_witness:
  "fst (fast_hash [ustr ''/A/f.h'' \<mapsto> Unreadable, ustr ''/B/f.h'' \<mapsto> Unreadable] (ustr ''/A/f.h'')) = []
   \<and> fst (fast_hash [ustr ''/A/f.h'' \<mapsto> Unreadable, ustr ''/B/f.h'' \<mapsto> Unreadable] (ustr ''/B/f.h'')) = []
   \<and> fst (compare_file [ustr ''/A/f.h'' \<mapsto> Unreadable, ustr ''/B/f.h'' \<mapsto> Unreadable]
           (ustr ''f.h'') (ustr ''/A/f.h'') (ustr ''/B/f.h'') 3) = None
   \<and> fst (compare_file [ustr ''/A/f.h'' \<mapsto> Unreadable, ustr ''/B/f.h'' \<mapsto> Readable [0x78, 0x0A]]
           (ustr ''f.h'') (ustr ''/A/f.h'') (ustr ''/B/f.h'') 3)
       = modified_record (ustr ''f.h'') (ustr ''/A/f.h'') (ustr ''/B/f.h'') []
           (fst (read_lines [ustr ''/A/f.h'' \<mapsto> Unreadable, ustr ''/B/f.h'' \<mapsto> Readable [0x78, 0x0A]]
                  (ustr ''/B/f.h''))) 3"
  using compare_file_unreadable[of "[ustr ''/A/f.h'' \<mapsto> Unreadable, ustr ''/B/f.h'' \<mapsto> Unreadable]"
          "ustr ''/A/f.h''" "ustr ''/B/f.h''" "ustr ''f.h''" 3 "[]"]
        compare_file_unreadable[of "[ustr ''/A/f.h'' \<mapsto> Unreadable, ustr ''/B/f.h'' \<mapsto> Readable [0x78, 0x0A]]"
          "ustr ''/A/f.h''" "ustr ''/B/f.h''" "ustr ''f.h''" 3 "[0x78, 0x0A]"]
        paths_distinct
  by simp

section \<open>Counting added and removed lines\<close>

text \<open>
  Every line of the diff begins with the marker of the statement that yields it.  So the
  test of \<open>compare_file\<close> counts exactly the addition lines that do not begin with
  \<open>+++\<close>, and the removal lines that do not begin with \<open>---\<close>; the counts are the numbers
  of addition and removal lines when no line of file B begins with \<open>++\<close> and no line of
  file A with \<open>--\<close>.
\<close>

lemma slice_subset: "x \<in> set (slice xs i j) \<Longrightarrow> x \<in> set xs"
  unfolding slice_def by (meson in_set_dropD in_set_takeD)

lemma opcode_lines_shape:
  assumes "(t, l) \<in> set (opcode_lines a b opc)"
  shows "(t = Context \<and> (\<exists>line. l = 32 # line))
         \<or> (t = Removal \<and> (\<exists>line \<in> set a. l = 45 # line))
         \<or> (t = Addition \<and> (\<exists>line \<in> set b. l = 43 # line))"
proof -
  obtain tag i1 i2 j1 j2 where opc: "opc = (tag, i1, i2, j1, j2)"
    by (cases opc) auto
  from assms show ?thesis
    unfolding opc by (auto split: if_splits dest: slice_subset)
qed

lemma group_lines_shape:
  assumes "(t, l) \<in> set (group_lines a b grp)"
  shows "(t = HunkHeader \<and> (\<exists>rest. l = 64 # 64 # rest))
         \<or> (t = Context \<and> (\<exists>line. l = 32 # line))
         \<or> (t = Removal \<and> (\<exists>line \<in> set a. l = 45 # line))
         \<or> (t = Addition \<and> (\<exists>line \<in> set b. l = 43 # line))"
proof -
  from assms consider
    (hunk) "t = HunkHeader" "\<exists>rest. l = 64 # 64 # rest"
  | (body) opc where "opc \<in> set grp" "(t, l) \<in> set (opcode_lines a b opc)"
    unfolding group_lines_def
    by (auto simp: ustr_def split: prod.splits)
  then show ?thesis
  proof cases
    case hunk
    then show ?thesis by simp
  next
    case body
    from opcode_lines_shape[OF body(2)] show ?thesis by blast
  qed
qed

lemma unified_diff_tagged_shape:
  assumes "(t, l) \<in> set (unified_diff_tagged a b fromfile tofile n)"
  shows "(t = FileHeader \<and> (\<exists>rest. l = 45 # 45 # 45 # 32 # rest \<or> l = 43 # 43 # 43 # 32 # rest))
         \<or> (t = HunkHeader \<and> (\<exists>rest. l = 64 # 64 # rest))
         \<or> (t = Context \<and> (\<exists>line. l = 32 # line))
         \<or> (t = Removal \<and> (\<exists>line \<in> set a. l = 45 # line))
         \<or> (t = Addition \<and> (\<exists>line \<in> set b. l = 43 # line))"
proof -
  from assms consider
    (header) "t = FileHeader" "\<exists>rest. l = 45 # 45 # 45 # 32 # rest \<or> l = 43 # 43 # 43 # 32 # rest"
  | (body) grp where "(t, l) \<in> set (group_lines a b grp)"
    unfolding unified_diff_tagged_def
    by (auto simp: ustr_def split: list.splits)
  then show ?thesis
  proof cases
    case header
    then show ?thesis by simp
  next
    case body
    from group_lines_shape[OF body] show ?thesis by blast
  qed
qed

lemma counted_as_added:
  assumes "(t, l) \<in> set (unified_diff_tagged a b fromfile tofile n)"
  shows "(startswith l (ustr ''+'') \<and> \<not> startswith l (ustr ''+++''))
         = (t = Addition \<and> \<not> startswith l (ustr ''+++''))"
  using unified_diff_tagged_shape[OF assms]
  by (auto simp: startswith_def ustr_def)

lemma counted_as_removed:
  assumes "(t, l) \<in> set (unified_diff_tagged a b fromfile tofile n)"
  shows "(startswith l (ustr ''-'') \<and> \<not> startswith l (ustr ''---''))
         = (t = Removal \<and> \<not> startswith l (ustr ''---''))"
  using unified_diff_tagged_shape[OF assms]
  by (auto simp: startswith_def ustr_def)

lemma length_filter_snd:
  "\<forall>x \<in> set xs. P (snd x) = Q x \<Longrightarrow>
   length (filter P (map snd xs)) = length (filter Q xs)"
  by (induction xs) auto

lemma modified_record_counts:
  assumes "modified_record rel_path path_a path_b lines_a lines_b n = Some r"
  shows "lines_added r =
           length (filter (\<lambda>(t, l). t = Addition \<and> \<not> startswith l (ustr ''+++''))
             (unified_diff_tagged lines_a lines_b (ustr ''A/'' @ rel_path) (ustr ''B/'' @ rel_path) n))
         \<and> lines_removed r =
           length (filter (\<lambda>(t, l). t = Removal \<and> \<not> startswith l (ustr ''---''))
             (unified_diff_tagged lines_a lines_b (ustr ''A/'' @ rel_path) (ustr ''B/'' @ rel_path) n))"
proof -
  let ?tg = "unified_diff_tagged lines_a lines_b (ustr ''A/'' @ rel_path) (ustr ''B/'' @ rel_path) n"
  from assms have
    a: "lines_added r = length (filter (\<lambda>l. startswith l (ustr ''+'')
                                   \<and> \<not> startswith l (ustr ''+++'')) (map snd ?tg))"
    and d: "lines_removed r = length (filter (\<lambda>l. startswith l (ustr ''-'')
                                   \<and> \<not> startswith l (ustr ''---'')) (map snd ?tg))"
    by (auto simp: modified_record_def unified_diff_def Let_def split: if_splits)
  have a': "length (filter (\<lambda>l. startswith l (ustr ''+'') \<and> \<not> startswith l (ustr ''+++''))
              (map snd ?tg))
            = length (filter (\<lambda>(t, l). t = Addition \<and> \<not> startswith l (ustr ''+++'')) ?tg)"
  proof (rule length_filter_snd, rule ballI)
    fix x assume x: "x \<in> set ?tg"
    obtain t l where tl: "x = (t, l)" by (cases x)
    from counted_as_added[OF x[unfolded tl]]
    show "(startswith (snd x) (ustr ''+'') \<and> \<not> startswith (snd x) (ustr ''+++''))
          = (case x of (t, l) \<Rightarrow> t = Addition \<and> \<not> startswith l (ustr ''+++''))"
      unfolding tl by simp
  qed
  have d': "length (filter (\<lambda>l. startswith l (ustr ''-'') \<and> \<not> startswith l (ustr ''---''))
              (map snd ?tg))
            = length (filter (\<lambda>(t, l). t = Removal \<and> \<not> startswith l (ustr ''---'')) ?tg)"
  proof (rule length_filter_snd, rule ballI)
    fix x assume x: "x \<in> set ?tg"
    obtain t l where tl: "x = (t, l)" by (cases x)
    from counted_as_removed[OF x[unfolded tl]]
    show "(startswith (snd x) (ustr ''-'') \<and> \<not> startswith (snd x) (ustr ''---''))
          = (case x of (t, l) \<Rightarrow> t = Removal \<and> \<not> startswith l (ustr ''---''))"
      unfolding tl by simp
  qed
  from a d a' d' show ?thesis by simp
qed

lemma modified_record_counts_plain:
  assumes "modified_record rel_path path_a path_b lines_a lines_b n = Some r"
    and "\<forall>line \<in> set lines_b. \<not> startswith line (ustr ''++'')"
    and "\<forall>line \<in> set lines_a. \<not> startswith line (ustr ''--'')"
  shows "lines_added r =
           length (filter (\<lambda>x. fst x = Addition)
             (unified_diff_tagged lines_a lines_b (ustr ''A/'' @ rel_path) (ustr ''B/'' @ rel_path) n))
         \<and> lines_removed r =
           length (filter (\<lambda>x. fst x = Removal)
             (unified_diff_tagged lines_a lines_b (ustr ''A/'' @ rel_path) (ustr ''B/'' @ rel_path) n))"
proof -
  let ?tg = "unified_diff_tagged lines_a lines_b (ustr ''A/'' @ rel_path) (ustr ''B/'' @ rel_path) n"
  have pp: "startswith (43 # line) (ustr ''+++'') = startswith line (ustr ''++'')" for line
    by (auto simp: startswith_def ustr_def)
  have mm: "startswith (45 # line) (ustr ''---'') = startswith line (ustr ''--'')" for line
    by (auto simp: startswith_def ustr_def)
  have fa: "filter (\<lambda>(t, l). t = Addition \<and> \<not> startswith l (ustr ''+++'')) ?tg
            = filter (\<lambda>x. fst x = Addition) ?tg"
  proof (rule filter_cong[OF refl])
    fix x assume x: "x \<in> set ?tg"
    obtain t l where tl: "x = (t, l)" by (cases x)
    from unified_diff_tagged_shape[OF x[unfolded tl]] assms(2)
    show "(case x of (t, l) \<Rightarrow> t = Addition \<and> \<not> startswith l (ustr ''+++'')) = (fst x = Addition)"
      unfolding tl by (auto simp: pp)
  qed
  have fr: "filter (\<lambda>(t, l). t = Removal \<and> \<not> startswith l (ustr ''---'')) ?tg
            = filter (\<lambda>x. fst x = Removal) ?tg"
  proof (rule filter_cong[OF refl])
    fix x assume x: "x \<in> set ?tg"
    obtain t l where tl: "x = (t, l)" by (cases x)
    from unified_diff_tagged_shape[OF x[unfolded tl]] assms(3)
    show "(case x of (t, l) \<Rightarrow> t = Removal \<and> \<not> startswith l (ustr ''---'')) = (fst x = Removal)"
      unfolding tl by (auto simp: mm)
  qed
  from modified_record_counts[OF assms(1)] show ?thesis
    unfolding fa fr .
qed

lemma unified_diff_tagged_example:
  "unified_diff_tagged [ustr ''int x;'' @ [10]] [ustr ''int x;'' @ [10], ustr ''++i;'' @ [10]]
     (ustr ''A/f.h'') (ustr ''B/f.h'') 3
   = [(FileHeader, ustr ''--- A/f.h'' @ [10]), (FileHeader, ustr ''+++ B/f.h'' @ [10]),
      (HunkHeader, ustr ''@@ -1 +1,2 @@'' @ [10]),
      (Context, ustr '' int x;'' @ [10]), (Addition, ustr ''+++i;'' @ [10])]"
  by code_simp

text \<open>
  Claim C1 asks that \<open>lines_added\<close> be the number of addition lines of the diff for every
  content, also for lines that begin with \<open>++\<close>.  File A holds the line \<open>int x;\<close>, file B
  the lines \<open>int x;\<close> and \<open>++i;\<close> (their MD5 digests differ, so \<open>compare_file\<close> reaches
  this branch).  The diff has one addition line, \<open>+++i;\<close>, which the test
  \<open>not l.startswith("+++")\<close> takes for a file header: \<open>lines_added\<close> is 0.
\<close>

theorem added_line_with_plus_plus_not_counted:
  "modified_record (ustr ''f.h'') (ustr ''/A/f.h'') (ustr ''/B/f.h'')
     [ustr ''int x;'' @ [10]] [ustr ''int x;'' @ [10], ustr ''++i;'' @ [10]] 3
   = Some \<lparr>relative_path = ustr ''f.h'', status = ustr ''modified'',
             location_a = Some (ustr ''/A/f.h''), location_b = Some (ustr ''/B/f.h''),
             lines_added = 0, lines_removed = 0,
             diff = [ustr ''--- A/f.h'', ustr ''+++ B/f.h'', ustr ''@@ -1 +1,2 @@'',
                     ustr '' int x;'', ustr ''+++i;'']\<rparr>
   \<and> length (filter (\<lambda>x. fst x = Addition)
        (unified_diff_tagged [ustr ''int x;'' @ [10]] [ustr ''int x;'' @ [10], ustr ''++i;'' @ [10]]
           (ustr ''A/f.h'') (ustr ''B/f.h'') 3)) = 1"
  by code_simp


section \<open>Decoding: the later encodings are never reached\<close>

lemma decode_example:
  "decode UTF8 Replace [0xE9, 0x0A] = Inr [65533, 10]"
  "decode UTF8 Strict [0xE9, 0x0A] = Inl UnicodeDecodeError"
  "decode UTF8_SIG Strict [0xE9, 0x0A] = Inl UnicodeDecodeError"
  "decode LATIN1 Replace [0xE9, 0x0A] = Inr [233, 10]"
  by (simp_all add: decode_def decode_utf8_def is_cont_def)

lemma decode_example2:
  "decode UTF8 Replace [0xE8, 0x0A] = Inr [65533, 10]"
  "decode UTF8 Strict [0xE8, 0x0A] = Inl UnicodeDecodeError"
  "decode UTF8_SIG Strict [0xE8, 0x0A] = Inl UnicodeDecodeError"
  "decode LATIN1 Replace [0xE8, 0x0A] = Inr [232, 10]"
  by (simp_all add: decode_def decode_utf8_def is_cont_def)

text \<open>
  What \<open>read_lines\<close> does.  Every attempt is made with \<open>errors="replace"\<close>, so for a
  readable file the first attempt, UTF-8 with replacement, cannot raise: the file is
  opened once and the lines of that decoding are returned.  The attempts with
  \<open>utf-8-sig\<close> and \<open>latin-1\<close> are made only when opening or reading raises, and then
  they raise as well and the result is the empty list.
\<close>

lemma read_lines_first_attempt:
  "(fs filepath = Some (Readable bs) \<longrightarrow>
      (\<exists>text. decode UTF8 Replace bs = Inr text
              \<and> read_lines fs filepath = (readlines text, [OpenFile filepath])))
   \<and> (fs filepath = Some Unreadable \<or> fs filepath = None \<longrightarrow>
      read_lines fs filepath = ([], [OpenFile filepath, OpenFile filepath, OpenFile filepath]))"
  by (auto simp: read_lines_def open_readlines_def open_rb_def decode_def decode_utf8_def)

text \<open>Two equal one-line files have an empty diff; two different lines give a record.\<close>

lemma unified_diff_same_line: "unified_diff [x] [x] fromfile tofile 3 = []"
  by (simp add: unified_diff_def unified_diff_tagged_def get_grouped_opcodes_def
      get_opcodes_def get_matching_blocks_def matching_blocks_loop.simps
      find_longest_match_def extend_left.simps extend_right.simps chain_b_def
      trim_first_def trim_last_def enumerate_eq_zip Let_def)

lemma same_lines_no_record:
  "modified_record rel_path path_a path_b [x] [x] 3 = None"
  by (simp add: modified_record_def unified_diff_same_line)

lemma chain_lines_record:
  "modified_record (ustr ''f.h'') (ustr ''/A/f.h'') (ustr ''/B/f.h'')
     [[233, 10]] [[232, 10]] 3
   = Some \<lparr>relative_path = ustr ''f.h'', status = ustr ''modified'',
             location_a = Some (ustr ''/A/f.h''), location_b = Some (ustr ''/B/f.h''),
             lines_added = 1, lines_removed = 1,
             diff = [ustr ''--- A/f.h'', ustr ''+++ B/f.h'', ustr ''@@ -1 +1 @@'',
                     [45, 233], [43, 232]]\<rparr>"
  by code_simp

text \<open>
  Claim C7 describes the decoding as a chain: strict UTF-8, then UTF-8 with a
  byte-order mark, then a single-byte decoder, so that no file is lost to its encoding.
  The loop of \<open>read_lines\<close> over the three encodings is that chain, but \<open>errors="replace"\<close>
  on the first attempt keeps it from ever failing, and the other two are not reached.
  File A holds the bytes \<open>E9 0A\<close> and file B the bytes \<open>E8 0A\<close>: two different Latin-1
  files, neither well-formed UTF-8.  Both are read as the line U+FFFD, line feed, so
  whether or not the digests are equal \<open>compare_file\<close> returns no record, and the
  difference between the files is lost.  Read by the chain of the claim they are the
  lines U+00E9 and U+00E8, and the comparison of those lines gives a modified record
  with one line removed and one added.
\<close>

theorem fallback_encodings_unreachable:
  "fst (read_lines [ustr ''/A/f.h'' \<mapsto> Readable [0xE9, 0x0A], ustr ''/B/f.h'' \<mapsto> Readable [0xE8, 0x0A]]
          (ustr ''/A/f.h'')) = [[65533, 10]]
   \<and> fst (read_lines [ustr ''/A/f.h'' \<mapsto> Readable [0xE9, 0x0A], ustr ''/B/f.h'' \<mapsto> Readable [0xE8, 0x0A]]
          (ustr ''/B/f.h'')) = [[65533, 10]]
   \<and> fst (compare_file [ustr ''/A/f.h'' \<mapsto> Readable [0xE9, 0x0A], ustr ''/B/f.h'' \<mapsto> Readable [0xE8, 0x0A]]
          (ustr ''f.h'') (ustr ''/A/f.h'') (ustr ''/B/f.h'') 3) = None
   \<and> readlines (spec_fallback_chain [0xE9, 0x0A]) = [[233, 10]]
   \<and> readlines (spec_fallback_chain [0xE8, 0x0A]) = [[232, 10]]
   \<and> modified_record (ustr ''f.h'') (ustr ''/A/f.h'') (ustr ''/B/f.h'')
         [[233, 10]] [[232, 10]] 3
       = Some \<lparr>relative_path = ustr ''f.h'', status = ustr ''modified'',
                 location_a = Some (ustr ''/A/f.h''), location_b = Some (ustr ''/B/f.h''),
                 lines_added = 1, lines_removed = 1,
                 diff = [ustr ''--- A/f.h'', ustr ''+++ B/f.h'', ustr ''@@ -1 +1 @@'',
                         [45, 233], [43, 232]]\<rparr>"
proof -
  let ?fs = "[ustr ''/A/f.h'' \<mapsto> Readable [0xE9, 0x0A], ustr ''/B/f.h'' \<mapsto> Readable [0xE8, 0x0A]]"
  have a: "?fs (ustr ''/A/f.h'') = Some (Readable [0xE9, 0x0A])"
    and b: "?fs (ustr ''/B/f.h'') = Some (Readable [0xE8, 0x0A])"
    using paths_distinct by simp_all
  have la: "fst (read_lines ?fs (ustr ''/A/f.h'')) = [[65533, 10]]"
    unfolding read_lines_Readable[where fs="?fs", OF a]
    by (simp add: readlines_def is_cont_def)
  have lb: "fst (read_lines ?fs (ustr ''/B/f.h'')) = [[65533, 10]]"
    unfolding read_lines_Readable[where fs="?fs", OF b]
    by (simp add: readlines_def is_cont_def)
  have none: "fst (compare_file ?fs (ustr ''f.h'') (ustr ''/A/f.h'') (ustr ''/B/f.h'') 3) = None"
    unfolding compare_file_result la lb same_lines_no_record by (simp add: a b)
  have ca: "readlines (spec_fallback_chain [0xE9, 0x0A]) = [[233, 10]]"
    by (simp add: spec_fallback_chain_def decode_example readlines_def)
  have cb: "readlines (spec_fallback_chain [0xE8, 0x0A]) = [[232, 10]]"
    by (simp add: spec_fallback_chain_def decode_example2 readlines_def)
  from la lb none ca cb chain_lines_record show ?thesis
    by (intro conjI)
qed

section \<open>Compound suffixes\<close>

lemma collect_directory_keeps:
  "k \<in> fst ` set result \<Longrightarrow>
   k \<in> fst ` set (collect_directory os root extensions dirpath filenames result)"
proof (induction filenames arbitrary: result)
  case Nil
  then show ?case by simp
next
  case (Cons fname filenames)
  then show ?case
    by (auto simp: Let_def dom_update)
qed

lemma collect_walk_keeps:
  "k \<in> fst ` set result \<Longrightarrow>
   k \<in> fst ` set (collect_walk os root extensions triples result)"
proof (induction triples arbitrary: result)
  case Nil
  then show ?case by simp
next
  case (Cons t triples)
  obtain dirpath dirnames filenames where t: "t = (dirpath, dirnames, filenames)"
    by (cases t) auto
  from Cons show ?case
    by (simp add: t collect_directory_keeps)
qed

lemma collect_directory_adds:
  assumes "fname \<in> set filenames"
    and "lower os (snd (splitext os fname)) \<in> extensions
         \<or> list_ex (\<lambda>ce. endswith (lower os fname) ce) COMPOUND_EXTENSIONS"
  shows "relpath os (join os dirpath fname) root
           \<in> fst ` set (collect_directory os root extensions dirpath filenames result)"
  using assms
proof (induction filenames arbitrary: result)
  case Nil
  then show ?case by simp
next
  case (Cons f filenames)
  show ?case
  proof (cases "f = fname")
    case True
    have "relpath os (join os dirpath fname) root
            \<in> fst ` set (AList.update (relpath os (join os dirpath fname) root)
                             (join os dirpath fname) result)"
      by (simp add: dom_update)
    from collect_directory_keeps[OF this] Cons.prems(2) True show ?thesis
      by (simp add: Let_def)
  next
    case False
    with Cons.prems have "fname \<in> set filenames" by simp
    from Cons.IH[OF this Cons.prems(2)] show ?thesis
      by (simp add: Let_def)
  qed
qed

lemma collect_walk_adds:
  assumes "(dirpath, dirnames, filenames) \<in> set triples" and "fname \<in> set filenames"
    and "lower os (snd (splitext os fname)) \<in> extensions
         \<or> list_ex (\<lambda>ce. endswith (lower os fname) ce) COMPOUND_EXTENSIONS"
  shows "relpath os (join os dirpath fname) root
           \<in> fst ` set (collect_walk os root extensions triples result)"
  using assms(1)
proof (induction triples arbitrary: result)
  case Nil
  then show ?case by simp
next
  case (Cons t triples)
  show ?case
  proof (cases "t = (dirpath, dirnames, filenames)")
    case True
    from collect_walk_keeps[OF collect_directory_adds[OF assms(2,3)]] True
    show ?thesis by simp
  next
    case False
    with Cons.prems have "(dirpath, dirnames, filenames) \<in> set triples" by simp
    from Cons.IH[OF this] show ?thesis by (cases t) simp
  qed
qed

text \<open>
  Claim C8.  A file name that the walk lists and whose lower-case form ends with
  \<open>.build.cs\<close> or \<open>.target.cs\<close> has its relative path among the keys of the result,
  whatever set of extensions is passed: the compound suffixes are the constant
  \<open>COMPOUND_EXTENSIONS\<close>, not an argument.
\<close>

theorem compound_suffix_always_collected:
  assumes "(dirpath, dirnames, filenames) \<in> set (walk os (abspath os root))"
    and "fname \<in> set filenames"
    and "endswith (lower os fname) (ustr ''.build.cs'')
         \<or> endswith (lower os fname) (ustr ''.target.cs'')"
  shows "relpath os (join os dirpath fname) (abspath os root)
           \<in> fst ` set (collect_source_files os root extensions)"
proof -
  from assms(3) have "list_ex (\<lambda>ce. endswith (lower os fname) ce) COMPOUND_EXTENSIONS"
    by (auto simp: COMPOUND_EXTENSIONS_def)
  then have "lower os (snd (splitext os fname)) \<in> extensions
         \<or> list_ex (\<lambda>ce. endswith (lower os fname) ce) COMPOUND_EXTENSIONS" by blast
  from collect_walk_adds[OF assms(1,2) this] show ?thesis
    by (simp add: collect_source_files_def Let_def)
qed


theorem compound_suffix_always_collected_witness:
  "(ustr ''/A/Source'', [], [ustr ''Core.Build.cs''])
     \<in> set (walk (posix_env (\<lambda>root. [(root, [ustr ''Source''], [ustr ''notes.txt'']),
                                        (root @ ustr ''/Source'', [], [ustr ''Core.Build.cs''])]))
              (abspath (posix_env (\<lambda>root. [(root, [ustr ''Source''], [ustr ''notes.txt'']),
                                        (root @ ustr ''/Source'', [], [ustr ''Core.Build.cs''])]))
                 (ustr ''/A'')))
   \<and> endswith (ascii_lower (ustr ''Core.Build.cs'')) (ustr ''.build.cs'')
   \<and> ustr ''Source/Core.Build.cs''
       \<in> fst ` set (collect_source_files
            (posix_env (\<lambda>root. [(root, [ustr ''Source''], [ustr ''notes.txt'']),
                                (root @ ustr ''/Source'', [], [ustr ''Core.Build.cs''])]))
            (ustr ''/A'') {})"
proof -
  let ?os = "posix_env (\<lambda>root. [(root, [ustr ''Source''], [ustr ''notes.txt'']),
                                (root @ ustr ''/Source'', [], [ustr ''Core.Build.cs''])])"
  have 1: "(ustr ''/A/Source'', [], [ustr ''Core.Build.cs'']) \<in> set (walk ?os (abspath ?os (ustr ''/A'')))"
    by (simp add: posix_env_def ustr_def)
  have 2: "ustr ''Core.Build.cs'' \<in> set [ustr ''Core.Build.cs'']" by simp
  have 3: "endswith (lower ?os (ustr ''Core.Build.cs'')) (ustr ''.build.cs'')
           \<or> endswith (lower ?os (ustr ''Core.Build.cs'')) (ustr ''.target.cs'')"
    by (simp add: posix_env_def ascii_lower_def endswith_def ustr_def)
  have 4: "endswith (ascii_lower (ustr ''Core.Build.cs'')) (ustr ''.build.cs'')"
    by (simp add: ascii_lower_def endswith_def ustr_def)
  have 5: "relpath ?os (join ?os (ustr ''/A/Source'') (ustr ''Core.Build.cs'')) (abspath ?os (ustr ''/A''))
           = ustr ''Source/Core.Build.cs''"
    by (simp add: posix_env_def ustr_def)
  from compound_suffix_always_collected[OF 1 2 3, of "{}"] 1 4 show ?thesis
    unfolding 5 by blast
qed

section \<open>The report\<close>

lemma sort_key_unique:
  assumes "set xs = set ys" and "distinct (map f xs)" and "distinct (map f ys)"
  shows "sort_key f xs = sort_key f ys"
proof -
  have "map f (sort_key f xs) = map f (sort_key f ys)"
  proof (rule sorted_distinct_set_unique)
    show "sorted (map f (sort_key f xs))" "sorted (map f (sort_key f ys))"
      by (rule sorted_sort_key)+
    have "mset (map f (sort_key f xs)) = mset (map f xs)" by simp
    then show "distinct (map f (sort_key f xs))"
      using assms(2) by (metis mset_eq_imp_distinct_iff)
    have "mset (map f (sort_key f ys)) = mset (map f ys)" by simp
    then show "distinct (map f (sort_key f ys))"
      using assms(3) by (metis mset_eq_imp_distinct_iff)
    show "set (map f (sort_key f xs)) = set (map f (sort_key f ys))"
      using assms(1) by simp
  qed
  moreover have "inj_on f (set (sort_key f xs) \<union> set (sort_key f ys))"
    using assms by (simp add: distinct_map)
  ultimately show ?thesis
    by (simp add: inj_on_map_eq_map)
qed

lemma compare_file_Some:
  assumes "fst (compare_file fs rel_path path_a path_b n) = Some d"
  shows "relative_path d = rel_path
         \<and> (status d = ustr ''modified'' \<or> status d = ustr ''added'' \<or> status d = ustr ''removed'')"
  using assms
  by (auto simp: compare_file_result modified_record_def Let_def split: if_splits)

lemma worker_Some:
  "worker os fs ea eb files_a files_b ctx rel_path = Some d \<Longrightarrow>
   relative_path d = rel_path
   \<and> (status d = ustr ''modified'' \<or> status d = ustr ''added'' \<or> status d = ustr ''removed'')"
  unfolding worker_def Let_def by (rule compare_file_Some)

lemma map_filter_keys:
  assumes "\<And>k d. w k = Some d \<Longrightarrow> f d = k"
  shows "map f (List.map_filter w ks) = filter (\<lambda>k. w k \<noteq> None) ks"
  using assms by (induction ks) (auto simp: List.map_filter_simps split: option.splits)

lemma set_map_filter: "set (List.map_filter w ks) = {d. \<exists>k \<in> set ks. w k = Some d}"
  by (induction ks) (auto simp: List.map_filter_simps split: option.splits)

lemma count_three_ways:
  assumes "\<forall>d \<in> set ds. P d \<or> Q d \<or> R d"
    and "\<forall>d. \<not> (P d \<and> Q d) \<and> \<not> (P d \<and> R d) \<and> \<not> (Q d \<and> R d)"
  shows "length (filter P ds) + length (filter Q ds) + length (filter R ds) = length ds"
  using assms by (induction ds) auto


lemma demo_plan:
  "all_paths (collect_source_files (posix_env demo_walk) (ustr ''/A'') DEFAULT_EXTENSIONS)
             (collect_source_files (posix_env demo_walk) (ustr ''/B'') DEFAULT_EXTENSIONS)
   = [ustr ''bar.cpp'', ustr ''baz.cpp'', ustr ''f.h'']"
  by code_simp

lemma demo_run:
  "comparison_worker (posix_env demo_walk) demo_fs (ustr ''/A'') (ustr ''/B'') 3 NotCancelled
     [ustr ''f.h'', ustr ''baz.cpp'', ustr ''bar.cpp'']
   = Some \<lparr>summary = \<lparr>engine_a = ustr ''/A'', engine_b = ustr ''/B'', total_files_scanned = 3,
                        files_modified = 0, files_added = 1, files_removed = 1,
                        total_lines_added = 0, total_lines_removed = 0\<rparr>,
             differences =
               [\<lparr>relative_path = ustr ''bar.cpp'', status = ustr ''removed'',
                  location_a = Some (ustr ''/A/bar.cpp''), location_b = None,
                  lines_added = 0, lines_removed = 0, diff = []\<rparr>,
                \<lparr>relative_path = ustr ''baz.cpp'', status = ustr ''added'',
                  location_a = None, location_b = Some (ustr ''/B/baz.cpp''),
                  lines_added = 0, lines_removed = 0, diff = []\<rparr>]\<rparr>"
  by code_simp


lemma comparison_worker_Some:
  assumes "comparison_worker os fs a b ctx cancel order = Some r"
  shows "r = build_report (abspath os a) (abspath os b)
               (length (all_paths (collect_source_files os (abspath os a) DEFAULT_EXTENSIONS)
                                  (collect_source_files os (abspath os b) DEFAULT_EXTENSIONS)))
               (List.map_filter
                  (worker os fs (abspath os a) (abspath os b)
                     (collect_source_files os (abspath os a) DEFAULT_EXTENSIONS)
                     (collect_source_files os (abspath os b) DEFAULT_EXTENSIONS) ctx) order)"
  using assms by (simp add: comparison_worker_def Let_def split: if_splits)

lemma build_report_counts:
  assumes "\<forall>d \<in> set diffs0. status d = ustr ''modified'' \<or> status d = ustr ''added''
                              \<or> status d = ustr ''removed''"
  shows "files_modified (summary (build_report ea eb n diffs0))
         + files_added (summary (build_report ea eb n diffs0))
         + files_removed (summary (build_report ea eb n diffs0))
         = length (differences (build_report ea eb n diffs0))"
proof -
  have "\<forall>d \<in> set (sort_key relative_path diffs0).
          status d = ustr ''modified'' \<or> status d = ustr ''added'' \<or> status d = ustr ''removed''"
    using assms by simp
  moreover have "\<forall>d::FileDiff. \<not> (status d = ustr ''modified'' \<and> status d = ustr ''added'')
        \<and> \<not> (status d = ustr ''modified'' \<and> status d = ustr ''removed'')
        \<and> \<not> (status d = ustr ''added'' \<and> status d = ustr ''removed'')"
    using status_distinct by metis
  ultimately show ?thesis
    unfolding build_report_def Let_def
    by (simp add: count_three_ways)
qed

text \<open>
  Claim C6.  In every report that a run produces, the numbers of modified, added and
  removed files add up to the number of records, and \<open>total_files_scanned\<close> is the
  length of the plan, which is the number of distinct relative paths of the two scans.
\<close>

theorem report_counts:
  assumes "comparison_worker os fs a b ctx cancel order = Some r"
  shows "files_modified (summary r) + files_added (summary r) + files_removed (summary r)
           = length (differences r)
         \<and> total_files_scanned (summary r)
           = length (all_paths (collect_source_files os (abspath os a) DEFAULT_EXTENSIONS)
                               (collect_source_files os (abspath os b) DEFAULT_EXTENSIONS))
         \<and> total_files_scanned (summary r)
           = card (set (map fst (collect_source_files os (abspath os a) DEFAULT_EXTENSIONS))
                   \<union> set (map fst (collect_source_files os (abspath os b) DEFAULT_EXTENSIONS)))"
proof -
  let ?fa = "collect_source_files os (abspath os a) DEFAULT_EXTENSIONS"
  let ?fb = "collect_source_files os (abspath os b) DEFAULT_EXTENSIONS"
  let ?w = "worker os fs (abspath os a) (abspath os b) ?fa ?fb ctx"
  note r = comparison_worker_Some[OF assms]
  have "\<forall>d \<in> set (List.map_filter ?w order).
          status d = ustr ''modified'' \<or> status d = ustr ''added'' \<or> status d = ustr ''removed''"
    by (auto simp: set_map_filter dest: worker_Some)
  from build_report_counts[OF this]
  have 1: "files_modified (summary r) + files_added (summary r) + files_removed (summary r)
           = length (differences r)"
    unfolding r .
  have 2: "total_files_scanned (summary r) = length (all_paths ?fa ?fb)"
    unfolding r by (simp add: build_report_def Let_def)
  have 3: "length (all_paths ?fa ?fb) = card (set (map fst ?fa) \<union> set (map fst ?fb))"
    unfolding all_paths_def by simp
  from 1 2 3 show ?thesis by simp
qed

theorem report_counts_witness:
  "comparison_worker (posix_env demo_walk) demo_fs (ustr ''/A'') (ustr ''/B'') 3 NotCancelled
     [ustr ''f.h'', ustr ''baz.cpp'', ustr ''bar.cpp'']
   = Some \<lparr>summary = \<lparr>engine_a = ustr ''/A'', engine_b = ustr ''/B'', total_files_scanned = 3,
                        files_modified = 0, files_added = 1, files_removed = 1,
                        total_lines_added = 0, total_lines_removed = 0\<rparr>,
             differences =
               [\<lparr>relative_path = ustr ''bar.cpp'', status = ustr ''removed'',
                  location_a = Some (ustr ''/A/bar.cpp''), location_b = None,
                  lines_added = 0, lines_removed = 0, diff = []\<rparr>,
                \<lparr>relative_path = ustr ''baz.cpp'', status = ustr ''added'',
                  location_a = None, location_b = Some (ustr ''/B/baz.cpp''),
                  lines_added = 0, lines_removed = 0, diff = []\<rparr>]\<rparr>
   \<and> (0::nat) + 1 + 1 = 2
   \<and> (3::nat) = length (all_paths
         (collect_source_files (posix_env demo_walk) (abspath (posix_env demo_walk) (ustr ''/A''))
            DEFAULT_EXTENSIONS)
         (collect_source_files (posix_env demo_walk) (abspath (posix_env demo_walk) (ustr ''/B''))
            DEFAULT_EXTENSIONS))"
  using report_counts[OF demo_run] demo_run
  by simp


lemma all_paths_sorted_distinct:
  "sorted (all_paths fa fb) \<and> distinct (all_paths fa fb)
   \<and> set (all_paths fa fb) = set (map fst fa) \<union> set (map fst fb)"
  unfolding all_paths_def by simp

lemma sorted_records_of_plan:
  assumes "\<And>k d. w k = Some d \<Longrightarrow> relative_path d = k"
    and "sorted plan" and "distinct plan"
    and "distinct order" and "set order = set plan"
  shows "sort_key relative_path (List.map_filter w order) = List.map_filter w plan"
proof -
  have kp: "map relative_path (List.map_filter w plan) = filter (\<lambda>k. w k \<noteq> None) plan"
    using assms(1) by (rule map_filter_keys)
  have ko: "map relative_path (List.map_filter w order) = filter (\<lambda>k. w k \<noteq> None) order"
    using assms(1) by (rule map_filter_keys)
  have "sort_key relative_path (List.map_filter w order)
          = sort_key relative_path (List.map_filter w plan)"
  proof (rule sort_key_unique)
    show "set (List.map_filter w order) = set (List.map_filter w plan)"
      by (simp add: set_map_filter assms(5))
    show "distinct (map relative_path (List.map_filter w order))"
      unfolding ko using assms(4) by simp
    show "distinct (map relative_path (List.map_filter w plan))"
      unfolding kp using assms(3) by simp
  qed
  also have "\<dots> = List.map_filter w plan"
  proof (rule sort_key_id_if_sorted)
    show "sorted (map relative_path (List.map_filter w plan))"
      unfolding kp using assms(2) by (rule sorted_wrt_filter)
  qed
  finally show ?thesis .
qed

text \<open>
  Claim C5.  The plan is sorted, without repetitions, and holds exactly the keys of the
  two scans.  Two runs on the same trees whose workers finish in different orders (two
  permutations of the plan) give the same result; in a report the records are sorted by
  \<open>relative_path\<close>, with no path twice: they are the records of the plan entries, in
  plan order.
\<close>

theorem report_independent_of_completion_order:
  assumes "distinct order1"
    and "set order1 = set (all_paths (collect_source_files os (abspath os a) DEFAULT_EXTENSIONS)
                                      (collect_source_files os (abspath os b) DEFAULT_EXTENSIONS))"
    and "distinct order2"
    and "set order2 = set (all_paths (collect_source_files os (abspath os a) DEFAULT_EXTENSIONS)
                                      (collect_source_files os (abspath os b) DEFAULT_EXTENSIONS))"
  shows "comparison_worker os fs a b ctx cancel order1
           = comparison_worker os fs a b ctx cancel order2
         \<and> sorted (all_paths (collect_source_files os (abspath os a) DEFAULT_EXTENSIONS)
                             (collect_source_files os (abspath os b) DEFAULT_EXTENSIONS))
         \<and> distinct (all_paths (collect_source_files os (abspath os a) DEFAULT_EXTENSIONS)
                               (collect_source_files os (abspath os b) DEFAULT_EXTENSIONS))
         \<and> set (all_paths (collect_source_files os (abspath os a) DEFAULT_EXTENSIONS)
                          (collect_source_files os (abspath os b) DEFAULT_EXTENSIONS))
             = set (map fst (collect_source_files os (abspath os a) DEFAULT_EXTENSIONS))
               \<union> set (map fst (collect_source_files os (abspath os b) DEFAULT_EXTENSIONS))
         \<and> (\<forall>r. comparison_worker os fs a b ctx cancel order1 = Some r \<longrightarrow>
               sorted (map relative_path (differences r))
               \<and> distinct (map relative_path (differences r))
               \<and> differences r =
                   List.map_filter
                     (worker os fs (abspath os a) (abspath os b)
                        (collect_source_files os (abspath os a) DEFAULT_EXTENSIONS)
                        (collect_source_files os (abspath os b) DEFAULT_EXTENSIONS) ctx)
                     (all_paths (collect_source_files os (abspath os a) DEFAULT_EXTENSIONS)
                                (collect_source_files os (abspath os b) DEFAULT_EXTENSIONS)))"
proof -
  let ?fa = "collect_source_files os (abspath os a) DEFAULT_EXTENSIONS"
  let ?fb = "collect_source_files os (abspath os b) DEFAULT_EXTENSIONS"
  let ?plan = "all_paths ?fa ?fb"
  let ?w = "worker os fs (abspath os a) (abspath os b) ?fa ?fb ctx"
  have key: "\<And>k d. ?w k = Some d \<Longrightarrow> relative_path d = k"
    using worker_Some by blast
  have plan: "sorted ?plan" "distinct ?plan" "set ?plan = set (map fst ?fa) \<union> set (map fst ?fb)"
    using all_paths_sorted_distinct[of ?fa ?fb] by blast+
  have s1: "sort_key relative_path (List.map_filter ?w order1) = List.map_filter ?w ?plan"
    using key plan(1,2) assms(1,2) by (rule sorted_records_of_plan)
  have s2: "sort_key relative_path (List.map_filter ?w order2) = List.map_filter ?w ?plan"
    using key plan(1,2) assms(3,4) by (rule sorted_records_of_plan)
  have same: "build_report ea eb n (List.map_filter ?w order1)
              = build_report ea eb n (List.map_filter ?w order2)" for ea eb n
    unfolding build_report_def Let_def s1 s2 ..
  have eq: "comparison_worker os fs a b ctx cancel order1
            = comparison_worker os fs a b ctx cancel order2"
    unfolding comparison_worker_def Let_def same ..
  have keys: "map relative_path (List.map_filter ?w ?plan) = filter (\<lambda>k. ?w k \<noteq> None) ?plan"
    using key by (rule map_filter_keys)
  have recs: "sorted (map relative_path (differences r))
              \<and> distinct (map relative_path (differences r))
              \<and> differences r = List.map_filter ?w ?plan"
    if "comparison_worker os fs a b ctx cancel order1 = Some r" for r
  proof -
    have d: "differences r = List.map_filter ?w ?plan"
      unfolding comparison_worker_Some[OF that]
      by (simp add: build_report_def Let_def s1)
    show ?thesis
      unfolding d keys using plan(1,2) by (simp add: sorted_wrt_filter)
  qed
  from eq plan recs show ?thesis by blast
qed

theorem report_independent_of_completion_order_witness:
  "comparison_worker (posix_env demo_walk) demo_fs (ustr ''/A'') (ustr ''/B'') 3 NotCancelled
     [ustr ''f.h'', ustr ''baz.cpp'', ustr ''bar.cpp'']
   = comparison_worker (posix_env demo_walk) demo_fs (ustr ''/A'') (ustr ''/B'') 3 NotCancelled
     [ustr ''baz.cpp'', ustr ''bar.cpp'', ustr ''f.h'']
   \<and> all_paths (collect_source_files (posix_env demo_walk) (ustr ''/A'') DEFAULT_EXTENSIONS)
                (collect_source_files (posix_env demo_walk) (ustr ''/B'') DEFAULT_EXTENSIONS)
       = [ustr ''bar.cpp'', ustr ''baz.cpp'', ustr ''f.h'']
   \<and> sorted [ustr ''bar.cpp'', ustr ''baz.cpp'', ustr ''f.h'']"
proof -
  have ab: "abspath (posix_env demo_walk) p = p" for p
    by (simp add: posix_env_def)
  have d: "distinct [ustr ''f.h'', ustr ''baz.cpp'', ustr ''bar.cpp'']"
          "distinct [ustr ''baz.cpp'', ustr ''bar.cpp'', ustr ''f.h'']"
    by (simp_all add: ustr_def)
  have s: "set [ustr ''f.h'', ustr ''baz.cpp'', ustr ''bar.cpp'']
             = set (all_paths (collect_source_files (posix_env demo_walk)
                                 (abspath (posix_env demo_walk) (ustr ''/A'')) DEFAULT_EXTENSIONS)
                              (collect_source_files (posix_env demo_walk)
                                 (abspath (posix_env demo_walk) (ustr ''/B'')) DEFAULT_EXTENSIONS))"
          "set [ustr ''baz.cpp'', ustr ''bar.cpp'', ustr ''f.h'']
             = set (all_paths (collect_source_files (posix_env demo_walk)
                                 (abspath (posix_env demo_walk) (ustr ''/A'')) DEFAULT_EXTENSIONS)
                              (collect_source_files (posix_env demo_walk)
                                 (abspath (posix_env demo_walk) (ustr ''/B'')) DEFAULT_EXTENSIONS))"
    unfolding ab demo_plan by auto
  from report_independent_of_completion_order[OF d(1) s(1) d(2) s(2),
         of demo_fs 3 NotCancelled]
  show ?thesis
    unfolding ab demo_plan by blast
qed


end
